theory Spec2Isabelle
  imports Main
begin

section \<open>The qualitative coding store (packages/viewer/src/qualitative/store.ts)\<close>

text \<open>
  The store is a closure over eight writable cells. The model is a record of their
  contents; every function of the Mutation API takes the state and returns the new one,
  or the failure with which it throws.
  The two sources of nondeterminism of the source, the clock (\<open>new Date()\<close>) and the
  random part of an identifier (\<open>crypto.randomUUID()\<close> or its fallback), are arguments
  of the functions that read them.
\<close>

subsection \<open>Objects used as dictionaries\<close>

text \<open>
  \<open>Record<string, V>\<close> is a plain JavaScript object. It is modelled as the list of its own
  properties in the order in which \<open>Object.entries\<close> and \<open>Object.values\<close> enumerate
  them: keys that are array indices first, in ascending numeric order, then all other
  keys in the order of their creation.

  The objects of this module are object literals and spread copies of them, so each of
  them inherits from \<open>Object.prototype\<close>. A property read \<open>o[k]\<close> returns the own
  property when there is one, else the inherited one, and \<open>undefined\<close> only when there
  is neither. \<open>Object_prototype\<close> lists what ECMAScript (with its Annex B) puts there:
  the constructor \<open>Object\<close> and ten methods, each a function with the \<open>length\<close>
  given, and the accessor \<open>__proto__\<close>, which reads as the object \<open>Object.prototype\<close>
  itself. The table is the platform's, not this repository's.
\<close>

type_synonym 'v Record = "(string \<times> 'v) list"

datatype inherited = BuiltinFunction nat | BuiltinObject

definition Object_prototype :: "(string \<times> inherited) list" where
  "Object_prototype =
     [(''constructor'', BuiltinFunction 1),
      (''__defineGetter__'', BuiltinFunction 2),
      (''__defineSetter__'', BuiltinFunction 2),
      (''hasOwnProperty'', BuiltinFunction 1),
      (''__lookupGetter__'', BuiltinFunction 1),
      (''__lookupSetter__'', BuiltinFunction 1),
      (''isPrototypeOf'', BuiltinFunction 1),
      (''propertyIsEnumerable'', BuiltinFunction 1),
      (''toString'', BuiltinFunction 0),
      (''valueOf'', BuiltinFunction 0),
      (''__proto__'', BuiltinObject),
      (''toLocaleString'', BuiltinFunction 0)]"

definition inherited_name :: "string \<Rightarrow> bool" where
  "inherited_name k = (k \<in> fst ` set Object_prototype)"

text \<open>What a property read returns.\<close>

datatype 'v property = Own 'v | Inherited inherited | Undefined

definition is_digit :: "char \<Rightarrow> bool" where
  "is_digit c = (48 \<le> (of_char c :: int) \<and> (of_char c :: int) \<le> 57)"

definition digits_val :: "string \<Rightarrow> int" where
  "digits_val s = foldl (\<lambda>n c. 10 * n + ((of_char c :: int) - 48)) 0 s"

definition is_array_index :: "string \<Rightarrow> bool" where
  "is_array_index s =
     (s \<noteq> [] \<and> list_all is_digit s \<and> (s = ''0'' \<or> hd s \<noteq> CHR ''0'')
      \<and> digits_val s < 4294967295)"

definition obj_get :: "'v Record \<Rightarrow> string \<Rightarrow> 'v property" where
  "obj_get r k =
     (case map_of r k of
        Some v \<Rightarrow> Own v
      | None \<Rightarrow> (case map_of Object_prototype k of
                  Some i \<Rightarrow> Inherited i
                | None \<Rightarrow> Undefined))"

text \<open>
  \<open>obj_set\<close> writes an own property: the value of an existing one is replaced in place,
  a new one is created at its place in the enumeration order. It is the computed key of
  an object literal, \<open>{...o, [k]: v}\<close>, for every key, and the assignment
  \<open>o[k] = v\<close> for every key that is an own property or is not inherited; the model
  uses it for no other assignment.
\<close>

fun replace_value :: "string \<Rightarrow> 'v \<Rightarrow> 'v Record \<Rightarrow> 'v Record" where
  "replace_value k v [] = []"
| "replace_value k v ((k', v') # r) =
     (if k' = k then (k, v) # r else (k', v') # replace_value k v r)"

fun insert_index :: "string \<Rightarrow> 'v \<Rightarrow> 'v Record \<Rightarrow> 'v Record" where
  "insert_index k v [] = [(k, v)]"
| "insert_index k v ((k', v') # r) =
     (if is_array_index k' \<and> digits_val k' < digits_val k
      then (k', v') # insert_index k v r
      else (k, v) # (k', v') # r)"

definition obj_set :: "string \<Rightarrow> 'v \<Rightarrow> 'v Record \<Rightarrow> 'v Record" where
  "obj_set k v r =
     (if k \<in> fst ` set r then replace_value k v r
      else if is_array_index k then insert_index k v r
      else r @ [(k, v)])"

subsection \<open>Failures\<close>

text \<open>
  \<open>TypeError\<close> is the exception the platform throws; a function that throws inside the
  callback of a store's \<open>update\<close> leaves the store as it was.

  \<open>Corrupted\<close> is not an exception. It marks the point at which the loop of
  \<open>cooccurrence\<close> has read an inherited built-in where a row or a count belongs: the
  statements that follow write a property of that built-in, a global object, or store a
  string in place of a count. The code goes on from there; the model stops, since what
  the code does next depends on the whole global environment.
\<close>

datatype failure = TypeError | Corrupted

definition and_then :: "failure + 'a \<Rightarrow> ('a \<Rightarrow> failure + 'b) \<Rightarrow> failure + 'b" where
  "and_then x f = (case x of Inl e \<Rightarrow> Inl e | Inr v \<Rightarrow> f v)"

text \<open>A loop over a list whose body can fail: the first failure ends it.\<close>

fun fold_result :: "('a \<Rightarrow> 'b \<Rightarrow> failure + 'b) \<Rightarrow> 'a list \<Rightarrow> 'b \<Rightarrow> failure + 'b" where
  "fold_result f [] s = Inr s"
| "fold_result f (x # xs) s = (case f x s of Inl e \<Rightarrow> Inl e | Inr s' \<Rightarrow> fold_result f xs s')"

subsection \<open>The built-in Set\<close>

text \<open>
  A JavaScript \<open>Set\<close> keeps its elements in insertion order, which is the order
  \<open>Array.from\<close> returns them in. It is modelled as the list of its elements. Elements
  are compared as \<open>Set\<close> and \<open>Array.prototype.includes\<close> compare them; on the model's
  values that is equality.
\<close>

definition Set_add :: "'a \<Rightarrow> 'a list \<Rightarrow> 'a list" where
  "Set_add x s = (if x \<in> set s then s else s @ [x])"

definition Set_delete :: "'a \<Rightarrow> 'a list \<Rightarrow> 'a list" where
  "Set_delete x s = removeAll x s"

definition new_Set :: "'a list \<Rightarrow> 'a list" where
  "new_Set xs = fold Set_add xs []"

subsection \<open>Entities\<close>

text \<open>
  \<open>Date\<close> values are only stored and printed, \<open>number\<close> fields of relations and temporal
  codes are only stored: a date is its time value, a number is left uninterpreted.
  Row identifiers (\<open>RowID\<close>, declared outside this module) are a type parameter \<open>'r\<close>.
  The \<open>frequency\<close> of a Code is declared a number; in the derived list it is the
  \<open>length\<close> property of whatever the assignments table returns, which can be
  \<open>undefined\<close> (\<open>None\<close>).
\<close>

type_synonym Date = int

typedecl number

datatype CodeLevel = Level1 | Level2 | Level3

datatype ActorType = Human | NonHuman | Hybrid

datatype MemoType = Theoretical | Methodological | Observational

datatype RelationType = IsA | PartOf | Causes | Contradicts | AssociatesWith

datatype Action = Apply | Remove | Create | Merge | Split

datatype ActorRole = Intermediary | Mediator

record Code =
  code_id :: string
  code_name :: string
  code_description :: string
  color :: string
  parentId :: "string option"
  level :: CodeLevel
  code_createdAt :: Date
  createdBy :: "string option"
  frequency :: "nat option"
  antActorType :: "ActorType option"

text \<open>\<open>Partial<Code>\<close>: every field of a Code, each of them optional.\<close>

record PartialCode =
  p_id :: "string option"
  p_name :: "string option"
  p_description :: "string option"
  p_color :: "string option"
  p_parentId :: "string option"
  p_level :: "CodeLevel option"
  p_createdAt :: "Date option"
  p_createdBy :: "string option"
  p_frequency :: "nat option"
  p_antActorType :: "ActorType option"

text \<open>\<open>Omit<Memo, "id" | "createdAt">\<close> and the Memo that extends it.\<close>

record 'r MemoInput =
  content :: string
  linkedCodes :: "string list"
  linkedDataPoints :: "'r list"
  memoType :: MemoType
  tags :: "string list"

record 'r Memo = "'r MemoInput" +
  memo_id :: string
  memo_createdAt :: Date

record RelationInput =
  fromCode :: string
  toCode :: string
  relationType :: RelationType
  strength :: "number option"
  relation_notes :: "string option"

record CodeRelation = RelationInput +
  relation_id :: string

text \<open>\<open>Omit<CodingEvent, "timestamp">\<close> and the CodingEvent that extends it.\<close>

record 'r EventInput =
  action :: Action
  codeId :: string
  dataPointIds :: "'r list"
  coder :: "string option"
  event_notes :: "string option"

record 'r CodingEvent = "'r EventInput" +
  timestamp :: Date

record ActorInput =
  actor_name :: string
  actorType :: ActorType
  role :: ActorRole
  actor_description :: "string option"

record Actor = ActorInput +
  actor_id :: string

record 'r ActorLinkInput =
  fromActor :: string
  toActor :: string
  translationType :: string
  link_dataPointIds :: "'r list"
  link_notes :: "string option"

record 'r ActorLink = "'r ActorLinkInput" +
  link_id :: string

record 'r TemporalCode =
  temporal_id :: string
  temporal_codeId :: string
  startTime :: number
  endTime :: number
  videoId :: 'r

record 'r State =
  codes :: "Code list"
  memos :: "'r Memo list"
  relations :: "CodeRelation list"
  actors :: "Actor list"
  actorLinks :: "'r ActorLink list"
  temporalCodes :: "'r TemporalCode list"
  assignments :: "'r list Record"
  codingEvents :: "'r CodingEvent list"

subsection \<open>Identifiers and colours\<close>

text \<open>
  \<open>createId\<close>: the prefix, a dash, and the random part \<open>uuid\<close> that the platform
  supplies.
\<close>

definition createId :: "string \<Rightarrow> string \<Rightarrow> string" where
  "createId prefix uuid = prefix @ ''-'' @ uuid"

definition palette :: "string list" where
  "palette = [''#2563eb'', ''#16a34a'', ''#f97316'', ''#ef4444'',
              ''#8b5cf6'', ''#14b8a6'', ''#facc15'', ''#ec4899'']"

definition toColor :: "nat \<Rightarrow> string" where
  "toColor index = palette ! (index mod length palette)"

subsection \<open>Derived values\<close>

text \<open>
  The body of the inner loop of \<open>assignmentsByRow\<close>; \<open>String\<close> is JavaScript's
  conversion of a row identifier to a string. \<open>row_write\<close> is the two statements for a
  key whose value \<open>cur\<close> is a list (the own one, or the new empty one). Where the key
  reads as an inherited built-in, \<open>result[key].includes\<close> is \<open>undefined\<close> and the call
  throws.
\<close>

definition row_write :: "string \<Rightarrow> string \<Rightarrow> string list \<Rightarrow> string list Record \<Rightarrow> string list Record" where
  "row_write key cid cur result =
     (let result1 = obj_set key cur result
      in if cid \<in> set cur then result1 else obj_set key (cur @ [cid]) result1)"

definition row_step ::
  "('r \<Rightarrow> string) \<Rightarrow> string \<Rightarrow> 'r \<Rightarrow> string list Record \<Rightarrow> failure + string list Record" where
  "row_step String cid rowId result =
     (let key = String rowId
      in case obj_get result key of
           Own cur \<Rightarrow> Inr (row_write key cid cur result)
         | Undefined \<Rightarrow> Inr (row_write key cid [] result)
         | Inherited i \<Rightarrow> Inl TypeError)"

definition assignmentsByRow :: "('r \<Rightarrow> string) \<Rightarrow> 'r list Record \<Rightarrow> failure + string list Record" where
  "assignmentsByRow String asg =
     fold_result (\<lambda>(cid, rows) result. fold_result (row_step String cid) rows result) asg []"

text \<open>
  \<open>($assignments[code.id] ?? []).length\<close>: the length of the own list, 0 for
  \<open>undefined\<close>, and for an inherited built-in its own \<open>length\<close>, which
  \<open>Object.prototype\<close> does not have.
\<close>

definition live_frequency :: "'r list Record \<Rightarrow> string \<Rightarrow> nat option" where
  "live_frequency asg k =
     (case obj_get asg k of
        Own rows \<Rightarrow> Some (length rows)
      | Undefined \<Rightarrow> Some 0
      | Inherited (BuiltinFunction n) \<Rightarrow> Some n
      | Inherited BuiltinObject \<Rightarrow> None)"

definition codesWithFrequency :: "Code list \<Rightarrow> 'r list Record \<Rightarrow> Code list" where
  "codesWithFrequency cs asg =
     map (\<lambda>code. code\<lparr>frequency := live_frequency asg (code_id code)\<rparr>) cs"

definition row_or_empty :: "nat Record Record \<Rightarrow> string \<Rightarrow> failure + nat Record" where
  "row_or_empty m a =
     (case obj_get m a of Own r \<Rightarrow> Inr r | Undefined \<Rightarrow> Inr [] | Inherited i \<Rightarrow> Inl Corrupted)"

definition count_or_zero :: "nat Record \<Rightarrow> string \<Rightarrow> failure + nat" where
  "count_or_zero r b =
     (case obj_get r b of Own n \<Rightarrow> Inr n | Undefined \<Rightarrow> Inr 0 | Inherited i \<Rightarrow> Inl Corrupted)"

text \<open>
  The body of the innermost loop of \<open>cooccurrence\<close>, statement by statement:
  \<open>matrix[a] = matrix[a] ?? {}\<close>, the same for \<open>b\<close>, then the two increments, each a
  read of the row, a read of the count and a write. A read that returns an inherited
  built-in ends the model's run as \<open>Corrupted\<close>.
\<close>

definition pair_step :: "string \<Rightarrow> string \<Rightarrow> nat Record Record \<Rightarrow> failure + nat Record Record" where
  "pair_step a b matrix =
     and_then (row_or_empty matrix a) (\<lambda>ra0. let m1 = obj_set a ra0 matrix in
     and_then (row_or_empty m1 b) (\<lambda>rb0. let m2 = obj_set b rb0 m1 in
     and_then (row_or_empty m2 a) (\<lambda>ra.
     and_then (count_or_zero ra b) (\<lambda>n. let m3 = obj_set a (obj_set b (n + 1) ra) m2 in
     and_then (row_or_empty m3 b) (\<lambda>rb.
     and_then (count_or_zero rb a) (\<lambda>n'.
     Inr (obj_set b (obj_set a (n' + 1) rb) m3)))))))"

definition cooccurrence_row :: "string list \<Rightarrow> nat Record Record \<Rightarrow> failure + nat Record Record" where
  "cooccurrence_row codesForRow matrix =
     fold_result (\<lambda>i m. fold_result (\<lambda>j m'. pair_step (codesForRow ! i) (codesForRow ! j) m')
                                     [i + 1 ..< length codesForRow] m)
                 [0 ..< length codesForRow] matrix"

definition cooccurrence :: "string list Record \<Rightarrow> failure + nat Record Record" where
  "cooccurrence abr = fold_result cooccurrence_row (map snd abr) []"

text \<open>
  The value of the derived store \<open>cooccurrence\<close> for an assignments table: the function
  above applied to the value of the derived store \<open>assignmentsByRow\<close>.
\<close>

definition cooccurrence_value :: "('r \<Rightarrow> string) \<Rightarrow> 'r list Record \<Rightarrow> failure + nat Record Record" where
  "cooccurrence_value String asg = and_then (assignmentsByRow String asg) cooccurrence"

record saturation_result =
  totalCodes :: nat
  recentNewCodes :: nat
  trend :: string

text \<open>\<open>events.slice(-n)\<close>: the last \<open>n\<close> elements, all of them when there are fewer.\<close>

definition slice_last :: "nat \<Rightarrow> 'a list \<Rightarrow> 'a list" where
  "slice_last n xs = drop (length xs - n) xs"

definition saturation :: "Code list \<Rightarrow> 'r CodingEvent list \<Rightarrow> saturation_result" where
  "saturation cs events =
     (let total = length cs;
          recentEvents = slice_last 50 events;
          recent = length (filter (\<lambda>e. action e = Create) recentEvents);
          t = (if recent \<le> 2 then ''Approaching saturation'' else ''Exploring'')
      in \<lparr>totalCodes = total, recentNewCodes = recent, trend = t\<rparr>)"

subsection \<open>The Mutation API\<close>

definition logEvent :: "'r EventInput \<Rightarrow> Date \<Rightarrow> 'r State \<Rightarrow> 'r State" where
  "logEvent event now st =
     st\<lparr>codingEvents := codingEvents st @ [EventInput.extend event (CodingEvent.fields now)]\<rparr>"

definition createCode ::
  "string \<Rightarrow> Date \<Rightarrow> Date \<Rightarrow> PartialCode \<Rightarrow> 'r State \<Rightarrow> Code \<times> 'r State" where
  "createCode uuid now now' partial st =
     (let code = \<lparr>code_id = createId ''code'' uuid,
                  code_name = (case p_name partial of None \<Rightarrow> ''New Code'' | Some n \<Rightarrow> n),
                  code_description = (case p_description partial of None \<Rightarrow> [] | Some d \<Rightarrow> d),
                  color = (case p_color partial of None \<Rightarrow> toColor (length (codes st))
                           | Some c \<Rightarrow> c),
                  parentId = p_parentId partial,
                  level = (case p_level partial of None \<Rightarrow> Level1 | Some l \<Rightarrow> l),
                  code_createdAt = now,
                  createdBy = p_createdBy partial,
                  frequency = Some 0,
                  antActorType = p_antActorType partial\<rparr>;
          st1 = st\<lparr>codes := codes st @ [code]\<rparr>;
          st2 = logEvent \<lparr>action = Create, codeId = code_id code, dataPointIds = [],
                          coder = None, event_notes = None\<rparr> now' st1
      in (code, st2))"

text \<open>
  \<open>new Set(current[codeId] ?? [])\<close>: the elements of the own list, the empty set for
  \<open>undefined\<close>; an inherited built-in is not iterable and the constructor throws, inside
  the callback of \<open>update\<close>, so that the table is not written and no event is logged.
\<close>

definition existing_rows :: "'r list Record \<Rightarrow> string \<Rightarrow> failure + 'r list" where
  "existing_rows current cid =
     (case obj_get current cid of
        Own rows \<Rightarrow> Inr (new_Set rows)
      | Undefined \<Rightarrow> Inr (new_Set [])
      | Inherited i \<Rightarrow> Inl TypeError)"

definition applyCode :: "string \<Rightarrow> 'r list \<Rightarrow> Date \<Rightarrow> 'r State \<Rightarrow> failure + 'r State" where
  "applyCode cid rowIds now st =
     (if length rowIds = 0 then Inr st
      else
        let current = assignments st
        in case existing_rows current cid of
             Inl e \<Rightarrow> Inl e
           | Inr existing \<Rightarrow>
               let existing' = fold Set_add rowIds existing;
                   st1 = st\<lparr>assignments := obj_set cid existing' current\<rparr>
               in Inr (logEvent \<lparr>action = Apply, codeId = cid, dataPointIds = rowIds,
                                   coder = None, event_notes = None\<rparr> now st1))"

definition removeCode :: "string \<Rightarrow> 'r list \<Rightarrow> Date \<Rightarrow> 'r State \<Rightarrow> failure + 'r State" where
  "removeCode cid rowIds now st =
     (if length rowIds = 0 then Inr st
      else
        let current = assignments st
        in case existing_rows current cid of
             Inl e \<Rightarrow> Inl e
           | Inr existing \<Rightarrow>
               let existing' = fold Set_delete rowIds existing;
                   st1 = st\<lparr>assignments := obj_set cid existing' current\<rparr>
               in Inr (logEvent \<lparr>action = Remove, codeId = cid, dataPointIds = rowIds,
                                   coder = None, event_notes = None\<rparr> now st1))"

text \<open>The store after a call: a call that throws leaves it as it was.\<close>

definition store_after :: "'r State \<Rightarrow> failure + 'r State \<Rightarrow> 'r State" where
  "store_after st res = (case res of Inl e \<Rightarrow> st | Inr st' \<Rightarrow> st')"

definition createMemo :: "string \<Rightarrow> Date \<Rightarrow> 'r MemoInput \<Rightarrow> 'r State \<Rightarrow> 'r Memo \<times> 'r State" where
  "createMemo uuid now memo st =
     (let newMemo = MemoInput.extend memo (Memo.fields (createId ''memo'' uuid) now)
      in (newMemo, st\<lparr>memos := newMemo # memos st\<rparr>))"

definition createRelation :: "string \<Rightarrow> RelationInput \<Rightarrow> 'r State \<Rightarrow> CodeRelation \<times> 'r State" where
  "createRelation uuid relation st =
     (let newRelation = RelationInput.extend relation (CodeRelation.fields (createId ''relation'' uuid))
      in (newRelation, st\<lparr>relations := relations st @ [newRelation]\<rparr>))"

definition addActor :: "string \<Rightarrow> ActorInput \<Rightarrow> 'r State \<Rightarrow> Actor \<times> 'r State" where
  "addActor uuid actor st =
     (let newActor = ActorInput.extend actor (Actor.fields (createId ''actor'' uuid))
      in (newActor, st\<lparr>actors := actors st @ [newActor]\<rparr>))"

definition addActorLink :: "string \<Rightarrow> 'r ActorLinkInput \<Rightarrow> 'r State \<Rightarrow> 'r ActorLink \<times> 'r State" where
  "addActorLink uuid link st =
     (let newLink = ActorLinkInput.extend link (ActorLink.fields (createId ''actor-link'' uuid))
      in (newLink, st\<lparr>actorLinks := actorLinks st @ [newLink]\<rparr>))"

subsection \<open>The interchange exporter\<close>

definition level_string :: "CodeLevel \<Rightarrow> string" where
  "level_string l = (case l of Level1 \<Rightarrow> ''1'' | Level2 \<Rightarrow> ''2'' | Level3 \<Rightarrow> ''3'')"

definition memoType_string :: "MemoType \<Rightarrow> string" where
  "memoType_string t =
     (case t of Theoretical \<Rightarrow> ''theoretical'' | Methodological \<Rightarrow> ''methodological''
      | Observational \<Rightarrow> ''observational'')"

definition code_xml :: "Code \<Rightarrow> string" where
  "code_xml code =
     ''<Code id=\"'' @ code_id code @ ''\" name=\"'' @ code_name code
     @ ''\" color=\"'' @ color code @ ''\" level=\"'' @ level_string (level code)
     @ ''\" parentId=\"'' @ (case parentId code of None \<Rightarrow> [] | Some p \<Rightarrow> p)
     @ ''\"></Code>''"

text \<open>
  \<open>toISOString\<close> is the platform's \<open>Date.prototype.toISOString\<close>, \<open>String\<close> the
  conversion of a row identifier to a string; both are parameters.
\<close>

definition memo_xml :: "(Date \<Rightarrow> string) \<Rightarrow> 'r Memo \<Rightarrow> string" where
  "memo_xml toISOString memo =
     ''<Memo id=\"'' @ memo_id memo @ ''\" type=\"'' @ memoType_string (memoType memo)
     @ ''\" createdAt=\"'' @ toISOString (memo_createdAt memo)
     @ ''\"><Content>'' @ content memo @ ''</Content></Memo>''"

definition coding_xml :: "('r \<Rightarrow> string) \<Rightarrow> string \<Rightarrow> 'r \<Rightarrow> string" where
  "coding_xml String cid rowId =
     ''<Coding codeId=\"'' @ cid @ ''\" dataPointId=\"'' @ String rowId @ ''\"></Coding>''"

definition exportRefiQda :: "('r \<Rightarrow> string) \<Rightarrow> (Date \<Rightarrow> string) \<Rightarrow> 'r State \<Rightarrow> string" where
  "exportRefiQda String toISOString st =
     (let codeXml = concat (map code_xml (codes st));
          memoXml = concat (map (memo_xml toISOString) (memos st));
          codingXml = concat (concat (map (\<lambda>(cid, rows). map (coding_xml String cid) rows)
                                          (assignments st)))
      in ''<?xml version=\"1.0\" encoding=\"UTF-8\"?><Project>'' @ codeXml @ memoXml @ codingXml
         @ ''</Project>'')"

subsection \<open>Reading the tables\<close>

text \<open>
  The rows stored for a code in the assignments table, and the codes stored for a row
  in \<open>assignmentsByRow\<close>: the own property, as \<open>Object.entries\<close> shows it, and the
  empty list where there is none.
\<close>

definition stored_list :: "'v list Record \<Rightarrow> string \<Rightarrow> 'v list" where
  "stored_list r k = (case map_of r k of None \<Rightarrow> [] | Some l \<Rightarrow> l)"

text \<open>The row stored in the co-occurrence matrix for a code, empty where there is none.\<close>

definition stored_row :: "nat Record Record \<Rightarrow> string \<Rightarrow> nat Record" where
  "stored_row matrix a = (case map_of matrix a of None \<Rightarrow> [] | Some row \<Rightarrow> row)"

text \<open>
  \<open>cooccurrence_entry\<close> is the entry stored in the co-occurrence matrix for a pair of
  codes, as the panel lists it with \<open>Object.entries\<close> (\<open>None\<close> where no entry is
  stored); \<open>cooccurrence_count\<close> is the count, 0 where no entry is stored, which is how
  the source reads an entry when it increments it (\<open>matrix[a][b] ?? 0\<close>).
\<close>

definition cooccurrence_entry :: "nat Record Record \<Rightarrow> string \<Rightarrow> string \<Rightarrow> nat option" where
  "cooccurrence_entry matrix a b =
     (case map_of matrix a of None \<Rightarrow> None | Some row \<Rightarrow> map_of row b)"

definition cooccurrence_count :: "nat Record Record \<Rightarrow> string \<Rightarrow> string \<Rightarrow> nat" where
  "cooccurrence_count matrix a b =
     (case cooccurrence_entry matrix a b of None \<Rightarrow> 0 | Some n \<Rightarrow> n)"

text \<open>
  The outer loop of \<open>cooccurrence\<close> over one row, entered at index \<open>k\<close>; at \<open>k = 0\<close>
  it is \<open>cooccurrence_row\<close>.
\<close>

definition outer_from :: "string list \<Rightarrow> nat \<Rightarrow> nat Record Record \<Rightarrow> failure + nat Record Record" where
  "outer_from cs k m =
     fold_result (\<lambda>i m. fold_result (\<lambda>j m'. pair_step (cs ! i) (cs ! j) m') [i + 1 ..< length cs] m)
                 [k ..< length cs] m"

text \<open>
  The codes that a list of entries of the assignments table assigns to the row whose
  string form is \<open>k\<close>.
\<close>

definition row_codes :: "('r \<Rightarrow> string) \<Rightarrow> 'r list Record \<Rightarrow> string \<Rightarrow> string set" where
  "row_codes String es k = {c. \<exists>rows. (c, rows) \<in> set es \<and> k \<in> String ` set rows}"

subsection \<open>Example inputs\<close>

text \<open>
  The export scenario: one code with no parent, no memos, and the code assigned to the
  single row "0". Row identifiers are strings here, so \<open>String\<close> is the identity.
\<close>

definition example_code :: Code where
  "example_code =
     \<lparr>code_id = ''code-1'', code_name = ''X'', code_description = [], color = ''#fff'',
      parentId = None, level = Level1, code_createdAt = 0, createdBy = None,
      frequency = Some 0, antActorType = None\<rparr>"

definition example_state :: "string State" where
  "example_state =
     \<lparr>codes = [example_code], memos = [], relations = [], actors = [], actorLinks = [],
      temporalCodes = [], assignments = [(''code-1'', [''0''])], codingEvents = []\<rparr>"

definition example_toISOString :: "Date \<Rightarrow> string" where
  "example_toISOString d = ''1970-01-01T00:00:00.000Z''"

section \<open>Properties\<close>

subsection \<open>Reading and writing properties of an object\<close>

lemma map_of_replace_value:
  "map_of (replace_value k v r) x
   = (if x = k \<and> map_of r k \<noteq> None then Some v else map_of r x)"
  by (induction r) auto

lemma keys_replace_value:
  "map fst (replace_value k v r) = map fst r"
  by (induction r) auto

lemma insert_index_split:
  "\<exists>xs ys. r = xs @ ys \<and> insert_index k v r = xs @ (k, v) # ys"
proof (induction r)
  case Nil
  then show ?case by simp
next
  case (Cons p r)
  obtain k' v' where p: "p = (k', v')" by (cases p)
  show ?case
  proof (cases "is_array_index k' \<and> digits_val k' < digits_val k")
    case True
    from Cons obtain xs ys where "r = xs @ ys" "insert_index k v r = xs @ (k, v) # ys" by blast
    then have "p # r = (p # xs) @ ys \<and> insert_index k v (p # r) = (p # xs) @ (k, v) # ys"
      using True p by simp
    then show ?thesis by blast
  next
    case False
    then have "p # r = [] @ (p # r) \<and> insert_index k v (p # r) = [] @ (k, v) # (p # r)"
      using p by auto
    then show ?thesis by blast
  qed
qed

lemma obj_set_fresh_split:
  assumes "k \<notin> fst ` set r"
  shows "\<exists>xs ys. r = xs @ ys \<and> obj_set k v r = xs @ (k, v) # ys"
proof (cases "is_array_index k")
  case True
  then show ?thesis using assms insert_index_split [of r k v] by (simp add: obj_set_def)
next
  case False
  then have "r = r @ [] \<and> obj_set k v r = r @ (k, v) # []" using assms by (simp add: obj_set_def)
  then show ?thesis by blast
qed

lemma map_of_obj_set:
  "map_of (obj_set k v r) k' = (if k' = k then Some v else map_of r k')"
proof (cases "k \<in> fst ` set r")
  case True
  then have "map_of r k \<noteq> None" by (simp add: map_of_eq_None_iff)
  with True show ?thesis by (simp add: obj_set_def map_of_replace_value)
next
  case False
  from obj_set_fresh_split [OF False, of v]
  obtain xs ys where s: "r = xs @ ys" "obj_set k v r = xs @ (k, v) # ys"
    by (elim exE conjE)
  with False have "k \<notin> fst ` set xs" by auto
  then have kx: "map_of xs k = None" by (simp add: map_of_eq_None_iff)
  show ?thesis
  proof (cases "map_of xs k'")
    case None
    then show ?thesis using s by (simp add: map_add_def)
  next
    case (Some a)
    with kx have "k' \<noteq> k" by auto
    then show ?thesis using s Some by (simp add: map_add_def)
  qed
qed

lemma obj_get_obj_set:
  "obj_get (obj_set k v r) k' = (if k' = k then Own v else obj_get r k')"
  by (simp add: obj_get_def map_of_obj_set)

lemma obj_get_plain:
  "\<not> inherited_name k \<Longrightarrow>
   obj_get r k = (case map_of r k of None \<Rightarrow> Undefined | Some v \<Rightarrow> Own v)"
proof -
  assume "\<not> inherited_name k"
  then have "map_of Object_prototype k = None"
    by (simp add: inherited_name_def map_of_eq_None_iff)
  then show ?thesis by (simp add: obj_get_def split: option.splits)
qed

lemma obj_get_Inherited:
  "obj_get r k = Inherited i \<Longrightarrow> map_of r k = None \<and> inherited_name k"
proof -
  assume a: "obj_get r k = Inherited i"
  then have n: "map_of r k = None" by (simp add: obj_get_def split: option.splits)
  with a have "map_of Object_prototype k = Some i" by (simp add: obj_get_def split: option.splits)
  then have "map_of Object_prototype k \<noteq> None" by simp
  then have "inherited_name k" by (simp add: inherited_name_def map_of_eq_None_iff)
  with n show ?thesis by simp
qed

lemma keys_obj_set: "fst ` set (obj_set k v r) = insert k (fst ` set r)"
proof (cases "k \<in> fst ` set r")
  case True
  have "fst ` set (replace_value k v r) = set (map fst (replace_value k v r))" by simp
  also have "\<dots> = fst ` set r" by (simp add: keys_replace_value)
  finally show ?thesis using True by (auto simp: obj_set_def)
next
  case False
  from obj_set_fresh_split [OF False, of v]
  obtain xs ys where s: "r = xs @ ys" "obj_set k v r = xs @ (k, v) # ys"
    by (elim exE conjE)
  then show ?thesis by auto
qed

lemma distinct_keys_obj_set:
  assumes "distinct (map fst r)"
  shows "distinct (map fst (obj_set k v r))"
proof (cases "k \<in> fst ` set r")
  case True
  then show ?thesis using assms by (simp add: obj_set_def keys_replace_value)
next
  case False
  from obj_set_fresh_split [OF False, of v]
  obtain xs ys where s: "r = xs @ ys" "obj_set k v r = xs @ (k, v) # ys"
    by (elim exE conjE)
  then show ?thesis using assms False by auto
qed

lemma replace_value_same:
  "map_of r k = Some v \<Longrightarrow> replace_value k v r = r"
  by (induction r) auto

lemma obj_set_same:
  assumes "map_of r k = Some v"
  shows "obj_set k v r = r"
proof -
  from assms have "map_of r k \<noteq> None" by simp
  then have "k \<in> fst ` set r" by (simp add: map_of_eq_None_iff)
  then show ?thesis using assms by (simp add: obj_set_def replace_value_same)
qed

lemma obj_set_idem: "obj_set k v (obj_set k v r) = obj_set k v r"
  by (rule obj_set_same) (simp add: map_of_obj_set)

lemma stored_list_obj_set:
  "stored_list (obj_set k v r) k' = (if k' = k then v else stored_list r k')"
  by (simp add: stored_list_def map_of_obj_set)

subsection \<open>Sets in insertion order\<close>

lemma fold_Set_add:
  "set (fold Set_add xs acc) = set acc \<union> set xs
   \<and> (distinct acc \<longrightarrow> distinct (fold Set_add xs acc))"
  by (induction xs arbitrary: acc) (auto simp: Set_add_def)

lemma set_new_Set: "set (new_Set xs) = set xs"
  by (simp add: new_Set_def fold_Set_add)

lemma distinct_new_Set: "distinct (new_Set xs)"
  by (simp add: new_Set_def fold_Set_add)

lemma fold_Set_add_distinct:
  "distinct (acc @ xs) \<Longrightarrow> fold Set_add xs acc = acc @ xs"
  by (induction xs arbitrary: acc) (auto simp: Set_add_def)

lemma new_Set_distinct: "distinct xs \<Longrightarrow> new_Set xs = xs"
  using fold_Set_add_distinct [of "[]" xs] by (simp add: new_Set_def)

lemma fold_Set_delete:
  "fold Set_delete rs s = filter (\<lambda>x. x \<notin> set rs) s"
proof (induction rs arbitrary: s)
  case Nil
  then show ?case by simp
next
  case (Cons r rs)
  have "filter (\<lambda>x. x \<notin> set rs) (removeAll r s) = filter (\<lambda>x. x \<notin> set (r # rs)) s"
    by (induction s) auto
  with Cons show ?case by (simp add: Set_delete_def)
qed

lemma assignments_logEvent: "assignments (logEvent e now st) = assignments st"
  by (simp add: logEvent_def)

lemma codes_logEvent: "codes (logEvent e now st) = codes st"
  by (simp add: logEvent_def)

lemma Set_add_distinct: "distinct s \<Longrightarrow> distinct (Set_add x s)"
  by (simp add: Set_add_def)

lemma Set_add_member: "x \<in> set (Set_add x s)"
  by (simp add: Set_add_def)

lemma Set_add_absorb: "x \<in> set s \<Longrightarrow> Set_add x s = s"
  by (simp add: Set_add_def)

lemma count_list_distinct:
  "distinct xs \<Longrightarrow> x \<in> set xs \<Longrightarrow> count_list xs x = 1"
  by (induction xs) auto

subsection \<open>Empty requests\<close>

text \<open>
  C7: for every store state and every code identifier, \<open>applyCode(c, [])\<close> and
  \<open>removeCode(c, [])\<close> return at once, before any read of the assignments table: the
  call does not throw, and the state after it, that is the assignments table, every
  registry and the audit log, is the state before it. No event is appended.
\<close>

theorem applyCode_removeCode_empty_noop:
  "applyCode c [] now st = Inr st \<and> removeCode c [] now st = Inr st"
  by (simp add: applyCode_def removeCode_def)

subsection \<open>Saturation\<close>

lemma length_filter_drop_card:
  "length (filter P (drop k xs)) = card {i. k \<le> i \<and> i < length xs \<and> P (xs ! i)}"
proof -
  have "{i. i < length xs - k \<and> P (drop k xs ! i)} = {j. j < length xs - k \<and> P (xs ! (k + j))}"
    by (rule Collect_cong) (auto simp: nth_drop)
  then have "length (filter P (drop k xs)) = card {j. j < length xs - k \<and> P (xs ! (k + j))}"
    by (simp add: length_filter_conv_card)
  also have "\<dots> = card ((\<lambda>j. k + j) ` {j. j < length xs - k \<and> P (xs ! (k + j))})"
    by (simp add: card_image)
  also have "(\<lambda>j. k + j) ` {j. j < length xs - k \<and> P (xs ! (k + j))}
             = {i. k \<le> i \<and> i < length xs \<and> P (xs ! i)}"
  proof (rule set_eqI, rule iffI)
    fix i assume "i \<in> (\<lambda>j. k + j) ` {j. j < length xs - k \<and> P (xs ! (k + j))}"
    then show "i \<in> {i. k \<le> i \<and> i < length xs \<and> P (xs ! i)}" by auto
  next
    fix i assume "i \<in> {i. k \<le> i \<and> i < length xs \<and> P (xs ! i)}"
    then have "i - k < length xs - k \<and> P (xs ! (k + (i - k))) \<and> i = k + (i - k)" by auto
    then show "i \<in> (\<lambda>j. k + j) ` {j. j < length xs - k \<and> P (xs ! (k + j))}" by blast
  qed
  finally show ?thesis .
qed

text \<open>
  C3: \<open>recentNewCodes\<close> is the number of positions among the last 50 of the audit log
  (all positions when the log is shorter) that hold a \<open>create\<close> event; the trend is
  "Approaching saturation" exactly when that number is at most 2 and "Exploring" exactly
  when it is more than 2. So 2 recent creations give "Approaching saturation" and 3
  give "Exploring".
\<close>

theorem saturation_recent_and_trend:
  "recentNewCodes (saturation cs es)
     = card {i. i < length es \<and> length es \<le> i + 50 \<and> action (es ! i) = Create}
   \<and> ((trend (saturation cs es) = ''Approaching saturation'')
        \<longleftrightarrow> recentNewCodes (saturation cs es) \<le> 2)
   \<and> ((trend (saturation cs es) = ''Exploring'')
        \<longleftrightarrow> 2 < recentNewCodes (saturation cs es))"
proof -
  have "{i. length es - 50 \<le> i \<and> i < length es \<and> action (es ! i) = Create}
        = {i. i < length es \<and> length es \<le> i + 50 \<and> action (es ! i) = Create}"
    by auto
  then have "recentNewCodes (saturation cs es)
     = card {i. i < length es \<and> length es \<le> i + 50 \<and> action (es ! i) = Create}"
    by (simp add: saturation_def slice_last_def Let_def length_filter_drop_card)
  moreover have "(trend (saturation cs es) = ''Approaching saturation'')
        \<longleftrightarrow> recentNewCodes (saturation cs es) \<le> 2"
    by (simp add: saturation_def Let_def)
  moreover have "(trend (saturation cs es) = ''Exploring'')
        \<longleftrightarrow> 2 < recentNewCodes (saturation cs es)"
    by (auto simp add: saturation_def Let_def)
  ultimately show ?thesis by blast
qed

subsection \<open>Creating a code\<close>

text \<open>
  C8: \<open>createCode(partial)\<close> is total. The Code it returns has the name "New Code" and
  level 1 where the partial input gives none, and where it gives no colour the palette
  entry at index (size of the code registry) modulo (length of the palette), an index
  inside the palette. The Code is appended at the end of the code registry, and exactly
  one event is appended to the audit log: a \<open>create\<close> event for the new code with empty
  \<open>dataPointIds\<close>.
\<close>

theorem createCode_defaults_and_effects:
  "code_name (fst (createCode uuid now now' partial st))
     = (case p_name partial of None \<Rightarrow> ''New Code'' | Some n \<Rightarrow> n)
   \<and> level (fst (createCode uuid now now' partial st))
     = (case p_level partial of None \<Rightarrow> Level1 | Some l \<Rightarrow> l)
   \<and> color (fst (createCode uuid now now' partial st))
     = (case p_color partial of
          None \<Rightarrow> palette ! (length (codes st) mod length palette)
        | Some c \<Rightarrow> c)
   \<and> length (codes st) mod length palette < length palette
   \<and> codes (snd (createCode uuid now now' partial st))
     = codes st @ [fst (createCode uuid now now' partial st)]
   \<and> codingEvents (snd (createCode uuid now now' partial st))
     = codingEvents st @
       [\<lparr>action = Create, codeId = code_id (fst (createCode uuid now now' partial st)),
         dataPointIds = [], coder = None, event_notes = None, timestamp = now'\<rparr>]"
proof -
  have "length (codes st) mod length palette < length palette"
    by (simp add: palette_def)
  moreover have "color (fst (createCode uuid now now' partial st))
     = (case p_color partial of
          None \<Rightarrow> palette ! (length (codes st) mod length palette)
        | Some c \<Rightarrow> c)"
    by (simp add: createCode_def Let_def toColor_def split: option.split)
  moreover have "code_name (fst (createCode uuid now now' partial st))
     = (case p_name partial of None \<Rightarrow> ''New Code'' | Some n \<Rightarrow> n)"
    by (simp add: createCode_def Let_def)
  moreover have "level (fst (createCode uuid now now' partial st))
     = (case p_level partial of None \<Rightarrow> Level1 | Some l \<Rightarrow> l)"
    by (simp add: createCode_def Let_def)
  moreover have "codes (snd (createCode uuid now now' partial st))
     = codes st @ [fst (createCode uuid now now' partial st)]"
    by (simp add: createCode_def Let_def logEvent_def)
  moreover have "codingEvents (snd (createCode uuid now now' partial st))
     = codingEvents st @
       [\<lparr>action = Create, codeId = code_id (fst (createCode uuid now now' partial st)),
         dataPointIds = [], coder = None, event_notes = None, timestamp = now'\<rparr>]"
    by (simp add: createCode_def Let_def logEvent_def EventInput.defs CodingEvent.defs)
  ultimately show ?thesis by blast
qed

subsection \<open>The audit log is append-only\<close>

text \<open>
  C9: every function of the Mutation API leaves the audit log as it was or appends one
  event at its end: the log after the call is the log before it followed by at most one
  event, so no entry is modified, reordered or removed. (A call of \<open>applyCode\<close> or
  \<open>removeCode\<close> that throws leaves the log as it was.)
\<close>

theorem codingEvents_append_only:
  "(\<exists>es. length es \<le> 1 \<and> codingEvents (snd (createCode uuid now now' partial st)) = codingEvents st @ es)
   \<and> (\<exists>es. length es \<le> 1 \<and> codingEvents (store_after st (applyCode cid rowIds now st)) = codingEvents st @ es)
   \<and> (\<exists>es. length es \<le> 1 \<and> codingEvents (store_after st (removeCode cid rowIds now st)) = codingEvents st @ es)
   \<and> (\<exists>es. length es \<le> 1 \<and> codingEvents (snd (createMemo uuid now memo st)) = codingEvents st @ es)
   \<and> (\<exists>es. length es \<le> 1 \<and> codingEvents (snd (createRelation uuid relation st)) = codingEvents st @ es)
   \<and> (\<exists>es. length es \<le> 1 \<and> codingEvents (snd (addActor uuid actor st)) = codingEvents st @ es)
   \<and> (\<exists>es. length es \<le> 1 \<and> codingEvents (snd (addActorLink uuid link st)) = codingEvents st @ es)"
proof -
  have one: "\<And>(xs :: 'a CodingEvent list) e. \<exists>es. length es \<le> 1 \<and> xs @ [e] = xs @ es"
    by (metis length_Cons list.size(3) le_refl One_nat_def)
  have none: "\<And>(xs :: 'a CodingEvent list). \<exists>es. length es \<le> 1 \<and> xs = xs @ es"
    by (metis append_Nil2 list.size(3) zero_le)
  have "\<exists>es. length es \<le> 1 \<and> codingEvents (snd (createCode uuid now now' partial st)) = codingEvents st @ es"
    by (simp add: createCode_def Let_def logEvent_def one)
  moreover have "\<exists>es. length es \<le> 1 \<and> codingEvents (store_after st (applyCode cid rowIds now st)) = codingEvents st @ es"
  proof (cases "applyCode cid rowIds now st")
    case (Inl e)
    then show ?thesis by (simp add: store_after_def none)
  next
    case (Inr st')
    then have "codingEvents st' = codingEvents st \<or> (\<exists>e. codingEvents st' = codingEvents st @ [e])"
      by (auto simp: applyCode_def Let_def logEvent_def split: if_splits sum.splits)
    then show ?thesis using Inr one none by (auto simp: store_after_def)
  qed
  moreover have "\<exists>es. length es \<le> 1 \<and> codingEvents (store_after st (removeCode cid rowIds now st)) = codingEvents st @ es"
  proof (cases "removeCode cid rowIds now st")
    case (Inl e)
    then show ?thesis by (simp add: store_after_def none)
  next
    case (Inr st')
    then have "codingEvents st' = codingEvents st \<or> (\<exists>e. codingEvents st' = codingEvents st @ [e])"
      by (auto simp: removeCode_def Let_def logEvent_def split: if_splits sum.splits)
    then show ?thesis using Inr one none by (auto simp: store_after_def)
  qed
  moreover have "\<exists>es. length es \<le> 1 \<and> codingEvents (snd (createMemo uuid now memo st)) = codingEvents st @ es"
    by (simp add: createMemo_def Let_def none)
  moreover have "\<exists>es. length es \<le> 1 \<and> codingEvents (snd (createRelation uuid relation st)) = codingEvents st @ es"
    by (simp add: createRelation_def Let_def none)
  moreover have "\<exists>es. length es \<le> 1 \<and> codingEvents (snd (addActor uuid actor st)) = codingEvents st @ es"
    by (simp add: addActor_def Let_def none)
  moreover have "\<exists>es. length es \<le> 1 \<and> codingEvents (snd (addActorLink uuid link st)) = codingEvents st @ es"
    by (simp add: addActorLink_def Let_def none)
  ultimately show ?thesis by blast
qed

subsection \<open>The export scenario\<close>

text \<open>
  C4 as stated: in the scenario \<open>exportRefiQda()\<close> returns exactly the
  \<open><Project>\<close> element. It does not: the string returned starts with the XML
  declaration.
\<close>

theorem export_scenario_counterexample:
  "exportRefiQda id example_toISOString example_state
   \<noteq> ''<Project><Code id=\"code-1\" name=\"X\" color=\"#fff\" level=\"1\" parentId=\"\"></Code><Coding codeId=\"code-1\" dataPointId=\"0\"></Coding></Project>''"
  by (simp add: exportRefiQda_def example_state_def example_code_def code_xml_def
      coding_xml_def level_string_def)

text \<open>
  C4 (amended): for every store state whose code registry is the single Code with id
  "code-1", name "X", colour "#fff", level 1 and no parent, with no memos and with the
  assignments table mapping "code-1" to one row whose string form is "0",
  \<open>exportRefiQda()\<close> returns the XML declaration followed by exactly the
  \<open><Project>\<close> element of the scenario.
\<close>

theorem export_scenario:
  assumes "codes st = [c]" and "code_id c = ''code-1''" and "code_name c = ''X''"
    and "color c = ''#fff''" and "level c = Level1" and "parentId c = None"
    and "memos st = []" and "assignments st = [(''code-1'', [r])]" and "String r = ''0''"
  shows "exportRefiQda String toISOString st
   = ''<?xml version=\"1.0\" encoding=\"UTF-8\"?>''
     @ ''<Project><Code id=\"code-1\" name=\"X\" color=\"#fff\" level=\"1\" parentId=\"\"></Code><Coding codeId=\"code-1\" dataPointId=\"0\"></Coding></Project>''"
  using assms
  by (simp add: exportRefiQda_def code_xml_def coding_xml_def level_string_def)

theorem export_scenario_witness:
  "exportRefiQda id example_toISOString example_state
   = ''<?xml version=\"1.0\" encoding=\"UTF-8\"?>''
     @ ''<Project><Code id=\"code-1\" name=\"X\" color=\"#fff\" level=\"1\" parentId=\"\"></Code><Coding codeId=\"code-1\" dataPointId=\"0\"></Coding></Project>''"
  by (rule export_scenario [where c = example_code and r = "''0''"])
     (simp_all add: example_state_def example_code_def)

subsection \<open>Applying and removing a code\<close>

lemma inherited_name_iff: "inherited_name k = (map_of Object_prototype k \<noteq> None)"
  by (simp add: inherited_name_def map_of_eq_None_iff)

lemma existing_rows_cases:
  "existing_rows current c
   = (if map_of current c = None \<and> inherited_name c then Inl TypeError
      else Inr (new_Set (stored_list current c)))"
proof (cases "map_of current c")
  case (Some rows)
  then show ?thesis by (simp add: existing_rows_def obj_get_def stored_list_def)
next
  case None
  show ?thesis
  proof (cases "map_of Object_prototype c")
    case (Some i)
    then have "inherited_name c" by (simp add: inherited_name_iff)
    then show ?thesis using None Some by (simp add: existing_rows_def obj_get_def)
  next
    case n: None
    then have "\<not> inherited_name c" by (simp add: inherited_name_iff)
    then show ?thesis using None n
      by (simp add: existing_rows_def obj_get_def stored_list_def)
  qed
qed

lemma applyCode_single:
  "applyCode c [r] now st
   = (if map_of (assignments st) c = None \<and> inherited_name c then Inl TypeError
      else Inr (logEvent \<lparr>action = Apply, codeId = c, dataPointIds = [r],
                          coder = None, event_notes = None\<rparr> now
                 (st\<lparr>assignments :=
                       obj_set c (Set_add r (new_Set (stored_list (assignments st) c)))
                         (assignments st)\<rparr>)))"
  by (simp add: applyCode_def Let_def existing_rows_cases)

text \<open>
  C5: applying the same pair twice is applying it once. After \<open>applyCode(c, [r])\<close> a
  second \<open>applyCode(c, [r])\<close> leaves the whole assignments table, so the rows of \<open>c\<close>
  and of every other code, as the first call left it, and \<open>r\<close> occurs at most once among
  the rows stored for \<open>c\<close>: once when the call returns, not at all when it throws. It
  throws exactly when \<open>c\<close> has no entry and names a property that every object inherits;
  then both calls throw and the table stays as it was.
\<close>

theorem applyCode_idempotent:
  "assignments (store_after (store_after st (applyCode c [r] now st))
       (applyCode c [r] now' (store_after st (applyCode c [r] now st))))
     = assignments (store_after st (applyCode c [r] now st))
   \<and> count_list (stored_list (assignments (store_after st (applyCode c [r] now st))) c) r
     = (case applyCode c [r] now st of Inl e \<Rightarrow> 0 | Inr st' \<Rightarrow> 1)
   \<and> (applyCode c [r] now st = Inl TypeError)
     = (map_of (assignments st) c = None \<and> inherited_name c)"
proof (cases "map_of (assignments st) c = None \<and> inherited_name c")
  case True
  then have t: "applyCode c [r] now st = Inl TypeError" "applyCode c [r] now' st = Inl TypeError"
    by (simp_all add: applyCode_single)
  have "stored_list (assignments st) c = []"
    using True by (simp add: stored_list_def)
  then show ?thesis using True t by (simp add: store_after_def)
next
  case False
  define e where "e = Set_add r (new_Set (stored_list (assignments st) c))"
  define s1 where "s1 = logEvent \<lparr>action = Apply, codeId = c, dataPointIds = [r],
      coder = None, event_notes = None\<rparr> now (st\<lparr>assignments := obj_set c e (assignments st)\<rparr>)"
  have d: "distinct e" unfolding e_def by (rule Set_add_distinct) (rule distinct_new_Set)
  have m: "r \<in> set e" unfolding e_def by (rule Set_add_member)
  have r1: "applyCode c [r] now st = Inr s1"
    using False by (simp add: applyCode_single s1_def e_def)
  have a1: "assignments s1 = obj_set c e (assignments st)"
    by (simp add: s1_def assignments_logEvent)
  have own: "map_of (assignments s1) c = Some e"
    by (simp add: a1 map_of_obj_set)
  have rows: "stored_list (assignments s1) c = e"
    by (simp add: stored_list_def own)
  have same: "Set_add r (new_Set e) = e"
    using d m by (simp add: new_Set_distinct Set_add_absorb)
  have "assignments (store_after s1 (applyCode c [r] now' s1)) = obj_set c e (assignments s1)"
    using own by (simp add: applyCode_single rows same store_after_def assignments_logEvent)
  then have "assignments (store_after s1 (applyCode c [r] now' s1)) = assignments s1"
    by (simp add: a1 obj_set_idem)
  moreover have "count_list e r = 1"
    using d m by (rule count_list_distinct)
  ultimately show ?thesis using False by (simp add: r1 store_after_def rows)
qed

lemma removeCode_effect:
  assumes "rs \<noteq> []" and "map_of (assignments st) c \<noteq> None \<or> \<not> inherited_name c"
  shows "\<exists>st'. removeCode c rs now st = Inr st'
         \<and> set (stored_list (assignments st') c)
             = set (stored_list (assignments st) c) - set rs
         \<and> distinct (stored_list (assignments st') c)
         \<and> codingEvents st'
           = codingEvents st @
             [\<lparr>action = Remove, codeId = c, dataPointIds = rs, coder = None,
               event_notes = None, timestamp = now\<rparr>]"
proof -
  define e where "e = filter (\<lambda>x. x \<notin> set rs) (new_Set (stored_list (assignments st) c))"
  define st' where "st' = logEvent \<lparr>action = Remove, codeId = c, dataPointIds = rs,
      coder = None, event_notes = None\<rparr> now (st\<lparr>assignments := obj_set c e (assignments st)\<rparr>)"
  have r: "removeCode c rs now st = Inr st'"
    using assms
    by (auto simp: removeCode_def Let_def existing_rows_cases fold_Set_delete e_def st'_def)
  have rows: "stored_list (assignments st') c = e"
    by (simp add: st'_def assignments_logEvent stored_list_obj_set)
  have "set e = set (stored_list (assignments st) c) - set rs"
    by (auto simp: e_def set_new_Set)
  moreover have "distinct e" by (simp add: e_def distinct_new_Set)
  moreover have "codingEvents st'
           = codingEvents st @
             [\<lparr>action = Remove, codeId = c, dataPointIds = rs, coder = None,
               event_notes = None, timestamp = now\<rparr>]"
    by (simp add: st'_def logEvent_def EventInput.defs CodingEvent.defs)
  ultimately show ?thesis using r rows by simp
qed

text \<open>
  C6 holds of the code wherever \<open>c\<close> has an entry or does not name an inherited property
  (\<open>removeCode_effect\<close>). It fails where \<open>c\<close> names one and has no entry: for the request
  \<open>removeCode("toString", ["0"])\<close> on the example state the call throws, no event is
  appended to the audit log and the table is not written.
\<close>

theorem removeCode_inherited_key_throws:
  "removeCode ''toString'' [''0''] 5 example_state = Inl TypeError
   \<and> codingEvents (store_after example_state (removeCode ''toString'' [''0''] 5 example_state))
       = codingEvents example_state
   \<and> assignments (store_after example_state (removeCode ''toString'' [''0''] 5 example_state))
       = assignments example_state"
  by (simp add: removeCode_def existing_rows_def obj_get_def Object_prototype_def
      example_state_def store_after_def)

lemma codes_removeCode:
  "removeCode c rs now st = Inr st' \<Longrightarrow> codes st' = codes st"
  by (auto simp: removeCode_def Let_def codes_logEvent split: if_splits sum.splits)

lemma fold_result_append:
  "fold_result f (xs @ ys) s
   = (case fold_result f xs s of Inl e \<Rightarrow> Inl e | Inr s' \<Rightarrow> fold_result f ys s')"
  by (induction xs arbitrary: s) (auto split: sum.splits)

lemma assignmentsByRow_skip_empty:
  "assignmentsByRow String (xs @ (c, []) # ys) = assignmentsByRow String (xs @ ys)"
  by (simp add: assignmentsByRow_def fold_result_append split: sum.splits)

lemma live_frequency_plain:
  assumes "map_of asg k \<noteq> None \<or> \<not> inherited_name k"
  shows "live_frequency asg k = Some (length (stored_list asg k))"
proof (cases "map_of asg k")
  case (Some rows)
  then show ?thesis by (simp add: live_frequency_def obj_get_def stored_list_def)
next
  case None
  with assms have "\<not> inherited_name k" by simp
  then show ?thesis using None
    by (simp add: live_frequency_def obj_get_plain stored_list_def)
qed

lemma live_frequency_obj_set_empty:
  assumes "map_of asg c = None" and "\<not> inherited_name c"
  shows "live_frequency (obj_set c [] asg) k = live_frequency asg k"
proof (cases "k = c")
  case True
  then show ?thesis using assms
    by (simp add: live_frequency_def obj_get_obj_set obj_get_plain)
next
  case False
  then show ?thesis by (simp add: live_frequency_def obj_get_obj_set)
qed

lemma removeCode_creates_empty_entry:
  assumes "map_of (assignments st) c = None" and "\<not> inherited_name c" and "rs \<noteq> []"
  shows "\<exists>st'. removeCode c rs now st = Inr st'
   \<and> map_of (assignments st') c = Some []
   \<and> c \<notin> fst ` set (assignments st)
   \<and> fst ` set (assignments st') = insert c (fst ` set (assignments st))
   \<and> assignmentsByRow String (assignments st') = assignmentsByRow String (assignments st)
   \<and> codesWithFrequency (codes st') (assignments st')
       = codesWithFrequency (codes st) (assignments st)"
proof -
  define st' where "st' = logEvent \<lparr>action = Remove, codeId = c, dataPointIds = rs,
      coder = None, event_notes = None\<rparr> now (st\<lparr>assignments := obj_set c [] (assignments st)\<rparr>)"
  have old: "stored_list (assignments st) c = []"
    using assms(1) by (simp add: stored_list_def)
  have r: "removeCode c rs now st = Inr st'"
    using assms
    by (simp add: removeCode_def Let_def existing_rows_cases fold_Set_delete old new_Set_def st'_def)
  have a: "assignments st' = obj_set c [] (assignments st)"
    by (simp add: st'_def assignments_logEvent)
  have cs: "codes st' = codes st" by (simp add: st'_def codes_logEvent)
  have fresh: "c \<notin> fst ` set (assignments st)"
    using assms(1) by (simp add: map_of_eq_None_iff)
  from obj_set_fresh_split [OF fresh, of "[]"]
  obtain xs ys where s: "assignments st = xs @ ys"
    "obj_set c [] (assignments st) = xs @ (c, []) # ys"
    by (elim exE conjE)
  have "map_of (assignments st') c = Some []"
    by (simp add: a map_of_obj_set)
  moreover have "fst ` set (assignments st') = insert c (fst ` set (assignments st))"
    by (simp add: a keys_obj_set)
  moreover have "assignmentsByRow String (assignments st')
       = assignmentsByRow String (assignments st)"
    by (simp only: a s(2) assignmentsByRow_skip_empty s(1) [symmetric])
  moreover have "codesWithFrequency (codes st') (assignments st')
       = codesWithFrequency (codes st) (assignments st)"
    by (simp add: cs a codesWithFrequency_def live_frequency_obj_set_empty [OF assms(1,2)])
  ultimately show ?thesis using fresh r by blast
qed

text \<open>
  C10 holds of the code for every \<open>c\<close> with no entry that does not name an inherited
  property (\<open>removeCode_creates_empty_entry\<close>). It fails for the others: "constructor"
  has no entry in the example state, yet \<open>removeCode("constructor", ["0"])\<close> throws and
  the table has the keys it had, without "constructor".
\<close>

theorem removeCode_inherited_key_no_entry:
  "map_of (assignments example_state) ''constructor'' = None
   \<and> removeCode ''constructor'' [''0''] 5 example_state = Inl TypeError
   \<and> map_of (assignments (store_after example_state
         (removeCode ''constructor'' [''0''] 5 example_state))) ''constructor'' = None
   \<and> fst ` set (assignments (store_after example_state
         (removeCode ''constructor'' [''0''] 5 example_state)))
       = fst ` set (assignments example_state)"
  by (simp add: removeCode_def existing_rows_def obj_get_def Object_prototype_def
      example_state_def store_after_def)

subsection \<open>Frequencies\<close>

lemma codesWithFrequency_frequency:
  assumes "i < length cs"
    and "map_of asg (code_id (cs ! i)) \<noteq> None \<or> \<not> inherited_name (code_id (cs ! i))"
  shows "length (codesWithFrequency cs asg) = length cs
   \<and> code_id (codesWithFrequency cs asg ! i) = code_id (cs ! i)
   \<and> frequency (codesWithFrequency cs asg ! i)
       = Some (length (stored_list asg (code_id (codesWithFrequency cs asg ! i))))
   \<and> (distinct (stored_list asg (code_id (codesWithFrequency cs asg ! i)))
        \<longrightarrow> frequency (codesWithFrequency cs asg ! i)
            = Some (card (set (stored_list asg (code_id (codesWithFrequency cs asg ! i))))))
   \<and> (codesWithFrequency cs asg ! i)\<lparr>frequency := frequency (cs ! i)\<rparr> = cs ! i"
  using assms by (simp add: codesWithFrequency_def distinct_card live_frequency_plain)


subsection \<open>Co-occurrence\<close>

lemma entry_stored_row:
  "cooccurrence_entry m x y = map_of (stored_row m x) y"
  by (cases "map_of m x") (simp_all add: cooccurrence_entry_def stored_row_def)

lemma stored_row_obj_set:
  "stored_row (obj_set a r m) x = (if x = a then r else stored_row m x)"
  by (simp add: stored_row_def map_of_obj_set)

lemma entry_ensure_row:
  "cooccurrence_entry (obj_set a (stored_row m a) m) x y = cooccurrence_entry m x y"
  by (simp add: entry_stored_row stored_row_obj_set)

lemma entry_write:
  "cooccurrence_entry (obj_set a (obj_set b n (stored_row m a)) m) x y
   = (if x = a \<and> y = b then Some n else cooccurrence_entry m x y)"
  by (simp add: entry_stored_row stored_row_obj_set map_of_obj_set)

lemma row_or_empty_plain:
  "\<not> inherited_name a \<Longrightarrow> row_or_empty m a = Inr (stored_row m a)"
  by (simp add: row_or_empty_def obj_get_plain stored_row_def split: option.splits)

lemma count_or_zero_plain:
  "\<not> inherited_name b \<Longrightarrow> count_or_zero (stored_row m a) b = Inr (cooccurrence_count m a b)"
  by (simp add: count_or_zero_def obj_get_plain cooccurrence_count_def entry_stored_row
      split: option.splits)

lemma pair_step_plain:
  assumes "\<not> inherited_name a" and "\<not> inherited_name b"
  shows "pair_step a b m =
     Inr (let m2 = obj_set b (stored_row (obj_set a (stored_row m a) m) b)
                     (obj_set a (stored_row m a) m);
              m3 = obj_set a (obj_set b (cooccurrence_count m2 a b + 1) (stored_row m2 a)) m2
          in obj_set b (obj_set a (cooccurrence_count m3 b a + 1) (stored_row m3 b)) m3)"
  using assms
  by (simp add: pair_step_def and_then_def Let_def row_or_empty_plain count_or_zero_plain)

lemma entry_pair_step:
  assumes "a \<noteq> b" and "\<not> inherited_name a" and "\<not> inherited_name b"
  shows "\<exists>m'. pair_step a b m = Inr m'
     \<and> (\<forall>x y. cooccurrence_entry m' x y
          = (if (x = a \<and> y = b) \<or> (x = b \<and> y = a) then Some (cooccurrence_count m x y + 1)
             else cooccurrence_entry m x y))"
proof -
  define m1 where "m1 = obj_set a (stored_row m a) m"
  define m2 where "m2 = obj_set b (stored_row m1 b) m1"
  define m3 where "m3 = obj_set a (obj_set b (cooccurrence_count m2 a b + 1) (stored_row m2 a)) m2"
  define m4 where "m4 = obj_set b (obj_set a (cooccurrence_count m3 b a + 1) (stored_row m3 b)) m3"
  have p: "pair_step a b m = Inr m4"
    by (simp add: pair_step_plain [OF assms(2,3)] Let_def m1_def m2_def m3_def m4_def)
  have e1: "\<And>x y. cooccurrence_entry m1 x y = cooccurrence_entry m x y"
    by (simp add: m1_def entry_ensure_row)
  have e2: "\<And>x y. cooccurrence_entry m2 x y = cooccurrence_entry m x y"
    by (simp add: m2_def entry_ensure_row e1)
  have c2: "\<And>x y. cooccurrence_count m2 x y = cooccurrence_count m x y"
    by (simp add: cooccurrence_count_def e2)
  have e3: "\<And>x y. cooccurrence_entry m3 x y
      = (if x = a \<and> y = b then Some (cooccurrence_count m a b + 1) else cooccurrence_entry m x y)"
    by (simp add: m3_def entry_write c2 e2)
  have c3: "cooccurrence_count m3 b a = cooccurrence_count m b a"
    using assms(1) by (simp add: cooccurrence_count_def e3)
  have e4: "\<And>x y. cooccurrence_entry m4 x y
      = (if x = b \<and> y = a then Some (cooccurrence_count m b a + 1) else cooccurrence_entry m3 x y)"
    by (simp add: m4_def entry_write c3)
  have "\<forall>x y. cooccurrence_entry m4 x y
          = (if (x = a \<and> y = b) \<or> (x = b \<and> y = a) then Some (cooccurrence_count m x y + 1)
             else cooccurrence_entry m x y)"
    using assms(1) by (auto simp: e4 e3)
  with p show ?thesis by blast
qed

lemma count_of_entry:
  "cooccurrence_entry m' x y = cooccurrence_entry m x y
   \<Longrightarrow> cooccurrence_count m' x y = cooccurrence_count m x y"
  by (simp add: cooccurrence_count_def)

lemma entry_inner_fold:
  assumes "a \<notin> set bs" and "distinct bs" and "\<not> inherited_name a"
    and "\<And>b. b \<in> set bs \<Longrightarrow> \<not> inherited_name b"
  shows "\<exists>m'. fold_result (pair_step a) bs m = Inr m'
     \<and> (\<forall>x y. cooccurrence_entry m' x y
          = (if (x = a \<and> y \<in> set bs) \<or> (y = a \<and> x \<in> set bs)
             then Some (cooccurrence_count m x y + 1)
             else cooccurrence_entry m x y))"
  using assms(1,2,4)
proof (induction bs arbitrary: m)
  case Nil
  then show ?case by simp
next
  case (Cons b bs)
  then have ab: "a \<noteq> b" and nb: "a \<notin> set bs" and bn: "b \<notin> set bs" and db: "distinct bs"
    and ib: "\<not> inherited_name b" and isb: "\<And>c. c \<in> set bs \<Longrightarrow> \<not> inherited_name c"
    by auto
  from entry_pair_step [OF ab assms(3) ib, of m]
  obtain m1 where p1: "pair_step a b m = Inr m1"
    and e1: "\<And>x y. cooccurrence_entry m1 x y
          = (if (x = a \<and> y = b) \<or> (x = b \<and> y = a) then Some (cooccurrence_count m x y + 1)
             else cooccurrence_entry m x y)"
    by blast
  from Cons.IH [OF nb db isb, of m1]
  obtain m' where p': "fold_result (pair_step a) bs m1 = Inr m'"
    and e': "\<And>x y. cooccurrence_entry m' x y
          = (if (x = a \<and> y \<in> set bs) \<or> (y = a \<and> x \<in> set bs)
             then Some (cooccurrence_count m1 x y + 1)
             else cooccurrence_entry m1 x y)"
    by blast
  have f: "fold_result (pair_step a) (b # bs) m = Inr m'"
    by (simp add: p1 p')
  have "\<forall>x y. cooccurrence_entry m' x y
          = (if (x = a \<and> y \<in> set (b # bs)) \<or> (y = a \<and> x \<in> set (b # bs))
             then Some (cooccurrence_count m x y + 1)
             else cooccurrence_entry m x y)"
  proof (intro allI)
    fix x y
    show "cooccurrence_entry m' x y
          = (if (x = a \<and> y \<in> set (b # bs)) \<or> (y = a \<and> x \<in> set (b # bs))
             then Some (cooccurrence_count m x y + 1)
             else cooccurrence_entry m x y)"
    proof (cases "(x = a \<and> y \<in> set bs) \<or> (y = a \<and> x \<in> set bs)")
      case True
      then have other: "\<not> ((x = a \<and> y = b) \<or> (x = b \<and> y = a))"
        using bn by auto
      then have "cooccurrence_entry m1 x y = cooccurrence_entry m x y"
        by (auto simp: e1)
      then have "cooccurrence_count m1 x y = cooccurrence_count m x y"
        by (rule count_of_entry)
      then have "cooccurrence_entry m' x y = Some (cooccurrence_count m x y + 1)"
        using True by (simp add: e')
      moreover have "(x = a \<and> y \<in> set (b # bs)) \<or> (y = a \<and> x \<in> set (b # bs))"
        using True by auto
      ultimately show ?thesis by simp
    next
      case False
      then have "cooccurrence_entry m' x y = cooccurrence_entry m1 x y"
        by (auto simp: e')
      also have "\<dots> = (if (x = a \<and> y = b) \<or> (x = b \<and> y = a)
          then Some (cooccurrence_count m x y + 1) else cooccurrence_entry m x y)"
        by (rule e1)
      also have "((x = a \<and> y = b) \<or> (x = b \<and> y = a))
          = ((x = a \<and> y \<in> set (b # bs)) \<or> (y = a \<and> x \<in> set (b # bs)))"
        using False by auto
      finally show ?thesis .
    qed
  qed
  with f show ?case by blast
qed

lemma fold_result_nth_upt:
  "i \<le> length cs \<Longrightarrow>
   fold_result (\<lambda>j. g (cs ! j)) [i ..< length cs] m = fold_result g (drop i cs) m"
proof (induction "length cs - i" arbitrary: i m)
  case 0
  then show ?case by simp
next
  case (Suc n)
  then have lt: "i < length cs" by simp
  have d: "drop i cs = cs ! i # drop (Suc i) cs"
    using lt by (simp add: Cons_nth_drop_Suc)
  have u: "[i ..< length cs] = i # [Suc i ..< length cs]"
    using lt by (simp add: upt_conv_Cons)
  have "n = length cs - Suc i" using Suc.hyps(2) by simp
  then have ih: "\<And>m'. fold_result (\<lambda>j. g (cs ! j)) [Suc i ..< length cs] m'
      = fold_result g (drop (Suc i) cs) m'"
    using Suc.hyps(1) lt by simp
  show ?case by (simp add: d u ih split: sum.splits)
qed

lemma outer_from_step:
  assumes "k < length cs"
  shows "outer_from cs k m
   = (case fold_result (pair_step (cs ! k)) (drop (Suc k) cs) m of
        Inl e \<Rightarrow> Inl e | Inr m1 \<Rightarrow> outer_from cs (Suc k) m1)"
proof -
  have u: "[k ..< length cs] = k # [Suc k ..< length cs]"
    using assms by (simp add: upt_conv_Cons)
  have "fold_result (\<lambda>j m'. pair_step (cs ! k) (cs ! j) m') [k + 1 ..< length cs] m
        = fold_result (pair_step (cs ! k)) (drop (k + 1) cs) m"
    using assms fold_result_nth_upt [of "k + 1" cs "pair_step (cs ! k)" m] by simp
  then show ?thesis by (simp add: outer_from_def u split: sum.splits)
qed

lemma entry_outer_from:
  assumes "distinct cs" and "k \<le> length cs" and "\<And>c. c \<in> set cs \<Longrightarrow> \<not> inherited_name c"
  shows "\<exists>m'. outer_from cs k m = Inr m'
     \<and> (\<forall>x y. cooccurrence_entry m' x y
          = (if x \<noteq> y \<and> x \<in> set (drop k cs) \<and> y \<in> set (drop k cs)
             then Some (cooccurrence_count m x y + 1)
             else cooccurrence_entry m x y))"
  using assms(2)
proof (induction "length cs - k" arbitrary: k m)
  case 0
  then show ?case by (simp add: outer_from_def)
next
  case (Suc n)
  then have lt: "k < length cs" by simp
  define a where "a = cs ! k"
  define rest where "rest = drop (Suc k) cs"
  have d: "drop k cs = a # rest"
    using lt by (simp add: Cons_nth_drop_Suc a_def rest_def)
  have "distinct (drop k cs)" using assms(1) by simp
  then have an: "a \<notin> set rest" and dr: "distinct rest" by (simp_all add: d)
  have ia: "\<not> inherited_name a" using assms(3) lt by (simp add: a_def)
  have ir: "\<And>c. c \<in> set rest \<Longrightarrow> \<not> inherited_name c"
    using assms(3) by (auto simp: rest_def dest: in_set_dropD)
  from entry_inner_fold [OF an dr ia ir, of m]
  obtain m1 where p1: "fold_result (pair_step a) rest m = Inr m1"
    and e1: "\<And>x y. cooccurrence_entry m1 x y
     = (if (x = a \<and> y \<in> set rest) \<or> (y = a \<and> x \<in> set rest)
        then Some (cooccurrence_count m x y + 1)
        else cooccurrence_entry m x y)"
    by blast
  have "n = length cs - Suc k" using Suc.hyps(2) by simp
  from Suc.hyps(1) [OF this, of m1] lt
  obtain m' where p': "outer_from cs (Suc k) m1 = Inr m'"
    and e': "\<And>x y. cooccurrence_entry m' x y
     = (if x \<noteq> y \<and> x \<in> set rest \<and> y \<in> set rest
        then Some (cooccurrence_count m1 x y + 1)
        else cooccurrence_entry m1 x y)"
    unfolding rest_def by auto
  have st: "outer_from cs k m = Inr m'"
    using outer_from_step [OF lt, of m] p1 p' by (simp add: a_def rest_def)
  have "\<forall>x y. cooccurrence_entry m' x y
          = (if x \<noteq> y \<and> x \<in> set (drop k cs) \<and> y \<in> set (drop k cs)
             then Some (cooccurrence_count m x y + 1)
             else cooccurrence_entry m x y)"
  proof (intro allI)
    fix x y
    show "cooccurrence_entry m' x y
          = (if x \<noteq> y \<and> x \<in> set (drop k cs) \<and> y \<in> set (drop k cs)
             then Some (cooccurrence_count m x y + 1)
             else cooccurrence_entry m x y)"
    proof (cases "x \<noteq> y \<and> x \<in> set rest \<and> y \<in> set rest")
      case True
      then have "x \<noteq> a" "y \<noteq> a" using an by auto
      then have "cooccurrence_entry m1 x y = cooccurrence_entry m x y" by (simp add: e1)
      then have "cooccurrence_count m1 x y = cooccurrence_count m x y" by (rule count_of_entry)
      then show ?thesis using True by (simp add: e' d)
    next
      case False
      then have "cooccurrence_entry m' x y = cooccurrence_entry m1 x y" by (auto simp: e')
      then show ?thesis using False an by (auto simp: e1 d)
    qed
  qed
  with st show ?case by blast
qed

lemma cooccurrence_row_outer: "cooccurrence_row cs m = outer_from cs 0 m"
  by (simp add: cooccurrence_row_def outer_from_def)

lemma entry_cooccurrence_row:
  assumes "distinct cs" and "\<And>c. c \<in> set cs \<Longrightarrow> \<not> inherited_name c"
  shows "\<exists>m'. cooccurrence_row cs m = Inr m'
     \<and> (\<forall>x y. cooccurrence_entry m' x y
          = (if x \<noteq> y \<and> x \<in> set cs \<and> y \<in> set cs
             then Some (cooccurrence_count m x y + 1)
             else cooccurrence_entry m x y))"
  using entry_outer_from [OF assms(1) _ assms(2), of 0 m] by (simp add: cooccurrence_row_outer)

lemma entry_Nil: "cooccurrence_entry [] x y = None"
  by (simp add: cooccurrence_entry_def)

lemma entry_fold_rows:
  assumes "\<forall>cs \<in> set rows. distinct cs \<and> (\<forall>c \<in> set cs. \<not> inherited_name c)"
    and "x \<noteq> y"
  shows "\<exists>m'. fold_result cooccurrence_row rows m = Inr m'
   \<and> cooccurrence_entry m' x y
     = (if length (filter (\<lambda>cs. x \<in> set cs \<and> y \<in> set cs) rows) = 0
        then cooccurrence_entry m x y
        else Some (cooccurrence_count m x y
                   + length (filter (\<lambda>cs. x \<in> set cs \<and> y \<in> set cs) rows)))"
  using assms(1)
proof (induction rows arbitrary: m)
  case Nil
  then show ?case by simp
next
  case (Cons cs rows)
  define k where "k = length (filter (\<lambda>cs. x \<in> set cs \<and> y \<in> set cs) rows)"
  have dc: "distinct cs" using Cons.prems by simp
  have ic: "\<And>c. c \<in> set cs \<Longrightarrow> \<not> inherited_name c" using Cons.prems by simp
  from entry_cooccurrence_row [OF dc ic, where m = m]
  obtain m1 where p1: "cooccurrence_row cs m = Inr m1"
    and e1: "\<And>x y. cooccurrence_entry m1 x y
          = (if x \<noteq> y \<and> x \<in> set cs \<and> y \<in> set cs
             then Some (cooccurrence_count m x y + 1)
             else cooccurrence_entry m x y)"
    by blast
  have r1: "\<forall>cs \<in> set rows. distinct cs \<and> (\<forall>c \<in> set cs. \<not> inherited_name c)"
    using Cons.prems by simp
  from Cons.IH [OF r1, of m1]
  obtain m' where p': "fold_result cooccurrence_row rows m1 = Inr m'"
    and ih: "cooccurrence_entry m' x y
      = (if k = 0 then cooccurrence_entry m1 x y else Some (cooccurrence_count m1 x y + k))"
    unfolding k_def by blast
  have f: "fold_result cooccurrence_row (cs # rows) m = Inr m'"
    by (simp add: p1 p')
  have e: "cooccurrence_entry m1 x y
   = (if x \<in> set cs \<and> y \<in> set cs then Some (cooccurrence_count m x y + 1)
      else cooccurrence_entry m x y)"
    using assms(2) by (simp add: e1)
  have "cooccurrence_entry m' x y
     = (if length (filter (\<lambda>cs. x \<in> set cs \<and> y \<in> set cs) (cs # rows)) = 0
        then cooccurrence_entry m x y
        else Some (cooccurrence_count m x y
                   + length (filter (\<lambda>cs. x \<in> set cs \<and> y \<in> set cs) (cs # rows))))"
  proof (cases "x \<in> set cs \<and> y \<in> set cs")
    case True
    then have l: "length (filter (\<lambda>cs. x \<in> set cs \<and> y \<in> set cs) (cs # rows)) = Suc k"
      by (simp add: k_def)
    have e': "cooccurrence_entry m1 x y = Some (cooccurrence_count m x y + 1)"
      using True by (simp add: e)
    then have c': "cooccurrence_count m1 x y = cooccurrence_count m x y + 1"
      by (simp add: cooccurrence_count_def)
    have "cooccurrence_entry m' x y = Some (cooccurrence_count m x y + Suc k)"
      by (cases "k = 0") (simp_all add: ih e' c')
    then show ?thesis by (simp only: l) simp
  next
    case False
    then have l: "length (filter (\<lambda>cs. x \<in> set cs \<and> y \<in> set cs) (cs # rows)) = k"
      by (simp add: k_def)
    have e': "cooccurrence_entry m1 x y = cooccurrence_entry m x y"
      using False by (auto simp: e)
    then have c': "cooccurrence_count m1 x y = cooccurrence_count m x y"
      by (rule count_of_entry)
    show ?thesis by (simp only: l ih e' c')
  qed
  with f show ?case by blast
qed

lemma entry_cooccurrence:
  assumes "\<forall>cs \<in> snd ` set abr. distinct cs \<and> (\<forall>c \<in> set cs. \<not> inherited_name c)"
    and "x \<noteq> y"
  shows "\<exists>m. cooccurrence abr = Inr m
   \<and> cooccurrence_entry m x y
     = (if length (filter (\<lambda>cs. x \<in> set cs \<and> y \<in> set cs) (map snd abr)) = 0 then None
        else Some (length (filter (\<lambda>cs. x \<in> set cs \<and> y \<in> set cs) (map snd abr))))"
proof -
  define L where "L = length (filter (\<lambda>cs. x \<in> set cs \<and> y \<in> set cs) (map snd abr))"
  have d: "\<forall>cs \<in> set (map snd abr). distinct cs \<and> (\<forall>c \<in> set cs. \<not> inherited_name c)"
    using assms(1) by simp
  from entry_fold_rows [OF d assms(2), of "[]"]
  obtain m' where p: "fold_result cooccurrence_row (map snd abr) [] = Inr m'"
    and e: "cooccurrence_entry m' x y
      = (if L = 0 then cooccurrence_entry [] x y else Some (cooccurrence_count [] x y + L))"
    unfolding L_def by blast
  have "cooccurrence abr = Inr m'" by (simp add: cooccurrence_def p)
  moreover have "cooccurrence_entry m' x y = (if L = 0 then None else Some L)"
    by (simp add: e entry_Nil cooccurrence_count_def)
  ultimately show ?thesis unfolding L_def by blast
qed

lemma length_filter_values_card:
  assumes "distinct (map fst r)"
  shows "length (filter P (map snd r)) = card {k. \<exists>v. map_of r k = Some v \<and> P v}"
  using assms
proof (induction r)
  case Nil
  then show ?case by simp
next
  case (Cons p r)
  obtain k0 v0 where p: "p = (k0, v0)" by (cases p)
  from Cons.prems p have fresh: "k0 \<notin> fst ` set r" and d: "distinct (map fst r)" by auto
  define A where "A = {k. \<exists>v. map_of r k = Some v \<and> P v}"
  have ih: "length (filter P (map snd r)) = card A"
    unfolding A_def using Cons.IH [OF d] .
  have sub: "A \<subseteq> fst ` set r"
    unfolding A_def by (auto dest: map_of_SomeD intro: rev_image_eqI)
  then have fin: "finite A" by (rule finite_subset) simp
  have notin: "k0 \<notin> A" using sub fresh by auto
  have none: "map_of r k0 = None" using fresh by (simp add: map_of_eq_None_iff)
  have "{k. \<exists>v. map_of (p # r) k = Some v \<and> P v} = (if P v0 then insert k0 A else A)"
    unfolding A_def p using none by (auto split: if_splits)
  then have "card {k. \<exists>v. map_of (p # r) k = Some v \<and> P v}
      = (if P v0 then Suc (card A) else card A)"
    using fin notin by simp
  then show ?case using ih by (simp add: p)
qed

lemma row_write_lookup:
  "stored_list (row_write key cid (stored_list res key) res) k
   = (if k = key
      then (if cid \<in> set (stored_list res k) then stored_list res k
            else stored_list res k @ [cid])
      else stored_list res k)"
  by (simp add: row_write_def Let_def stored_list_obj_set)

lemma row_write_distinct_keys:
  "distinct (map fst res) \<Longrightarrow> distinct (map fst (row_write key cid cur res))"
  by (simp add: row_write_def Let_def distinct_keys_obj_set)

lemma row_step_plain:
  assumes "\<not> inherited_name (String r)"
  shows "row_step String cid r res
         = Inr (row_write (String r) cid (stored_list res (String r)) res)"
  using assms
  by (simp add: row_step_def Let_def obj_get_plain stored_list_def split: option.splits)

lemma rows_fold_invariant:
  assumes "\<forall>r \<in> set rows. \<not> inherited_name (String r)"
  shows "\<exists>res'. fold_result (row_step String cid) rows res = Inr res'
   \<and> (distinct (map fst res) \<longrightarrow> distinct (map fst res'))
   \<and> (\<forall>k. set (stored_list res' k)
             = set (stored_list res k) \<union> (if k \<in> String ` set rows then {cid} else {})
          \<and> (distinct (stored_list res k) \<longrightarrow> distinct (stored_list res' k)))"
  using assms
proof (induction rows arbitrary: res)
  case Nil
  then show ?case by simp
next
  case (Cons r rows)
  define res1 where "res1 = row_write (String r) cid (stored_list res (String r)) res"
  have ir: "\<not> inherited_name (String r)" using Cons.prems by simp
  have p1: "row_step String cid r res = Inr res1"
    using ir by (simp add: row_step_plain res1_def)
  have k1: "distinct (map fst res) \<longrightarrow> distinct (map fst res1)"
    by (simp add: res1_def row_write_distinct_keys)
  have s1: "\<And>k. set (stored_list res1 k)
      = set (stored_list res k) \<union> (if k = String r then {cid} else {})"
    by (auto simp: res1_def row_write_lookup)
  have d1: "\<And>k. distinct (stored_list res k) \<longrightarrow> distinct (stored_list res1 k)"
    by (simp add: res1_def row_write_lookup)
  have rs: "\<forall>r \<in> set rows. \<not> inherited_name (String r)" using Cons.prems by simp
  from Cons.IH [OF rs, of res1]
  obtain res' where p': "fold_result (row_step String cid) rows res1 = Inr res'"
    and k': "distinct (map fst res1) \<longrightarrow> distinct (map fst res')"
    and s': "\<And>k. set (stored_list res' k)
             = set (stored_list res1 k) \<union> (if k \<in> String ` set rows then {cid} else {})"
    and d': "\<And>k. distinct (stored_list res1 k) \<longrightarrow> distinct (stored_list res' k)"
    by blast
  have f: "fold_result (row_step String cid) (r # rows) res = Inr res'"
    by (simp add: p1 p')
  have "\<forall>k. set (stored_list res' k)
             = set (stored_list res k) \<union> (if k \<in> String ` set (r # rows) then {cid} else {})
          \<and> (distinct (stored_list res k) \<longrightarrow> distinct (stored_list res' k))"
    using s1 d1 s' d' by auto
  with f k1 k' show ?case by blast
qed

lemma entries_fold_invariant:
  assumes "\<forall>rows \<in> snd ` set es. \<forall>r \<in> set rows. \<not> inherited_name (String r)"
  shows "\<exists>res'. fold_result (\<lambda>(cid, rows) result. fold_result (row_step String cid) rows result) es res
        = Inr res'
   \<and> (distinct (map fst res) \<longrightarrow> distinct (map fst res'))
   \<and> (\<forall>k. set (stored_list res' k) = set (stored_list res k) \<union> row_codes String es k
          \<and> (distinct (stored_list res k) \<longrightarrow> distinct (stored_list res' k)))"
  using assms
proof (induction es arbitrary: res)
  case Nil
  then show ?case by (simp add: row_codes_def)
next
  case (Cons e es)
  obtain cid rows where e: "e = (cid, rows)" by (cases e)
  have ir: "\<forall>r \<in> set rows. \<not> inherited_name (String r)"
    using Cons.prems e by simp
  from rows_fold_invariant [OF ir, of cid res]
  obtain res1 where p1: "fold_result (row_step String cid) rows res = Inr res1"
    and k1: "distinct (map fst res) \<longrightarrow> distinct (map fst res1)"
    and s1: "\<And>k. set (stored_list res1 k)
      = set (stored_list res k) \<union> (if k \<in> String ` set rows then {cid} else {})"
    and d1: "\<And>k. distinct (stored_list res k) \<longrightarrow> distinct (stored_list res1 k)"
    by blast
  have ies: "\<forall>rows \<in> snd ` set es. \<forall>r \<in> set rows. \<not> inherited_name (String r)"
    using Cons.prems by simp
  from Cons.IH [OF ies, of res1]
  obtain res' where p': "fold_result (\<lambda>(cid, rows) result. fold_result (row_step String cid) rows result) es res1
        = Inr res'"
    and k': "distinct (map fst res1) \<longrightarrow> distinct (map fst res')"
    and s': "\<And>k. set (stored_list res' k) = set (stored_list res1 k) \<union> row_codes String es k"
    and d': "\<And>k. distinct (stored_list res1 k) \<longrightarrow> distinct (stored_list res' k)"
    by blast
  have f: "fold_result (\<lambda>(cid, rows) result. fold_result (row_step String cid) rows result) (e # es) res
      = Inr res'"
    by (simp add: e p1 p')
  have rc: "\<And>k. row_codes String (e # es) k
      = (if k \<in> String ` set rows then {cid} else {}) \<union> row_codes String es k"
    by (auto simp: row_codes_def e)
  have "\<forall>k. set (stored_list res' k) = set (stored_list res k) \<union> row_codes String (e # es) k
          \<and> (distinct (stored_list res k) \<longrightarrow> distinct (stored_list res' k))"
    using s1 d1 s' d' rc by auto
  with f k1 k' show ?case by blast
qed

lemma stored_list_Nil: "stored_list [] k = []"
  by (simp add: stored_list_def)

lemma assignmentsByRow_invariant:
  assumes "\<forall>rows \<in> snd ` set asg. \<forall>r \<in> set rows. \<not> inherited_name (String r)"
  shows "\<exists>abr. assignmentsByRow String asg = Inr abr
   \<and> distinct (map fst abr)
   \<and> (\<forall>k. set (stored_list abr k) = row_codes String asg k
          \<and> distinct (stored_list abr k))"
  using entries_fold_invariant [OF assms, of "[]"]
  by (simp add: assignmentsByRow_def stored_list_Nil)

lemma row_codes_lookup:
  assumes "distinct (map fst asg)"
  shows "c \<in> row_codes String asg k \<longleftrightarrow> k \<in> String ` set (stored_list asg c)"
proof
  assume "c \<in> row_codes String asg k"
  then obtain rows where r: "(c, rows) \<in> set asg" "k \<in> String ` set rows"
    by (auto simp: row_codes_def)
  then have "map_of asg c = Some rows" using assms by simp
  then show "k \<in> String ` set (stored_list asg c)"
    using r by (simp add: stored_list_def)
next
  assume a: "k \<in> String ` set (stored_list asg c)"
  then obtain rows where "map_of asg c = Some rows"
    by (cases "map_of asg c") (auto simp: stored_list_def)
  then have "(c, rows) \<in> set asg" "stored_list asg c = rows"
    by (simp_all add: map_of_SomeD stored_list_def)
  then show "c \<in> row_codes String asg k" using a by (auto simp: row_codes_def)
qed

lemma shared_row_count:
  assumes "distinct (map fst asg)" and "distinct (map fst abr)"
    and "\<forall>k. set (stored_list abr k) = row_codes String asg k"
  shows "length (filter (\<lambda>cs. x \<in> set cs \<and> y \<in> set cs) (map snd abr))
   = card (String ` set (stored_list asg x) \<inter> String ` set (stored_list asg y))"
proof -
  have "length (filter (\<lambda>cs. x \<in> set cs \<and> y \<in> set cs) (map snd abr))
      = card {k. \<exists>v. map_of abr k = Some v \<and> x \<in> set v \<and> y \<in> set v}"
    by (rule length_filter_values_card [OF assms(2)])
  also have "{k. \<exists>v. map_of abr k = Some v \<and> x \<in> set v \<and> y \<in> set v}
      = {k. x \<in> set (stored_list abr k) \<and> y \<in> set (stored_list abr k)}"
  proof (rule Collect_cong)
    fix k
    show "(\<exists>v. map_of abr k = Some v \<and> x \<in> set v \<and> y \<in> set v)
        = (x \<in> set (stored_list abr k) \<and> y \<in> set (stored_list abr k))"
      by (cases "map_of abr k") (simp_all add: stored_list_def)
  qed
  also have "\<dots> = String ` set (stored_list asg x) \<inter> String ` set (stored_list asg y)"
    using row_codes_lookup [OF assms(1), of _ String] assms(3) by auto
  finally show ?thesis .
qed

lemma stored_rows_distinct:
  assumes "distinct (map fst abr)" and "\<forall>k. distinct (stored_list abr k)"
    and "cs \<in> snd ` set abr"
  shows "distinct cs"
proof -
  from assms(3) obtain k where "(k, cs) \<in> set abr" by auto
  with assms(1) have "map_of abr k = Some cs" by simp
  then have "stored_list abr k = cs" by (simp add: stored_list_def)
  then show ?thesis using assms(2) by metis
qed

lemma stored_rows_codes:
  assumes "distinct (map fst abr)" and "\<forall>k. set (stored_list abr k) = row_codes String asg k"
    and "cs \<in> snd ` set abr" and "c \<in> set cs"
  shows "c \<in> fst ` set asg"
proof -
  from assms(3) obtain k where "(k, cs) \<in> set abr" by auto
  with assms(1) have "map_of abr k = Some cs" by simp
  then have "stored_list abr k = cs" by (simp add: stored_list_def)
  with assms(2,4) have "c \<in> row_codes String asg k" by metis
  then show ?thesis by (force simp: row_codes_def)
qed

lemma cooccurrence_counts_shared_rows:
  assumes "distinct (map fst asg)" and "a \<noteq> b"
    and "\<forall>c \<in> fst ` set asg. \<not> inherited_name c"
    and "\<forall>rows \<in> snd ` set asg. \<forall>r \<in> set rows. \<not> inherited_name (String r)"
  shows "\<exists>m. cooccurrence_value String asg = Inr m
   \<and> cooccurrence_count m a b
       = card (String ` set (stored_list asg a) \<inter> String ` set (stored_list asg b))
   \<and> cooccurrence_count m b a
       = card (String ` set (stored_list asg a) \<inter> String ` set (stored_list asg b))
   \<and> cooccurrence_entry m a b = cooccurrence_entry m b a
   \<and> (cooccurrence_entry m a b = None)
       = (String ` set (stored_list asg a) \<inter> String ` set (stored_list asg b) = {})"
proof -
  define N where "N = card (String ` set (stored_list asg a) \<inter> String ` set (stored_list asg b))"
  from assignmentsByRow_invariant [OF assms(4)]
  obtain abr where r: "assignmentsByRow String asg = Inr abr"
    and dk: "distinct (map fst abr)"
    and inv: "\<forall>k. set (stored_list abr k) = row_codes String asg k
          \<and> distinct (stored_list abr k)"
    by (elim exE conjE)
  have sc: "\<forall>k. set (stored_list abr k) = row_codes String asg k" using inv by simp
  have dc: "\<forall>k. distinct (stored_list abr k)" using inv by simp
  have rows: "\<forall>cs \<in> snd ` set abr. distinct cs \<and> (\<forall>c \<in> set cs. \<not> inherited_name c)"
  proof (intro ballI conjI)
    fix cs assume cs: "cs \<in> snd ` set abr"
    show "distinct cs" by (rule stored_rows_distinct [OF dk dc cs])
    fix c assume "c \<in> set cs"
    then have "c \<in> fst ` set asg" by (rule stored_rows_codes [OF dk sc cs])
    then show "\<not> inherited_name c" using assms(3) by blast
  qed
  have ba: "b \<noteq> a" using assms(2) by simp
  have Nba: "card (String ` set (stored_list asg b) \<inter> String ` set (stored_list asg a)) = N"
    by (simp add: N_def Int_commute)
  have Lab: "length (filter (\<lambda>cs. a \<in> set cs \<and> b \<in> set cs) (map snd abr)) = N"
    unfolding N_def by (rule shared_row_count [OF assms(1) dk sc])
  have Lba: "length (filter (\<lambda>cs. b \<in> set cs \<and> a \<in> set cs) (map snd abr)) = N"
    unfolding Nba [symmetric] by (rule shared_row_count [OF assms(1) dk sc])
  from entry_cooccurrence [OF rows assms(2)]
  obtain m where cm: "cooccurrence abr = Inr m"
    and eab': "cooccurrence_entry m a b
      = (if length (filter (\<lambda>cs. a \<in> set cs \<and> b \<in> set cs) (map snd abr)) = 0 then None
         else Some (length (filter (\<lambda>cs. a \<in> set cs \<and> b \<in> set cs) (map snd abr))))"
    by (elim exE conjE)
  from entry_cooccurrence [OF rows ba]
  obtain m2 where cm2: "cooccurrence abr = Inr m2"
    and eba': "cooccurrence_entry m2 b a
      = (if length (filter (\<lambda>cs. b \<in> set cs \<and> a \<in> set cs) (map snd abr)) = 0 then None
         else Some (length (filter (\<lambda>cs. b \<in> set cs \<and> a \<in> set cs) (map snd abr))))"
    by (elim exE conjE)
  have m2: "m2 = m" using cm cm2 by simp
  have eab: "cooccurrence_entry m a b = (if N = 0 then None else Some N)"
    using eab' by (simp only: Lab)
  have eba: "cooccurrence_entry m b a = (if N = 0 then None else Some N)"
    using eba' by (simp only: Lba m2)
  have v: "cooccurrence_value String asg = Inr m"
    by (simp add: cooccurrence_value_def and_then_def r cm)
  have fin: "finite (String ` set (stored_list asg a) \<inter> String ` set (stored_list asg b))"
    by simp
  have zero: "(N = 0) = (String ` set (stored_list asg a) \<inter> String ` set (stored_list asg b) = {})"
    unfolding N_def using fin by (simp only: card_0_eq)
  have "cooccurrence_count m a b = N" by (simp add: cooccurrence_count_def eab)
  moreover have "cooccurrence_count m b a = N" by (simp add: cooccurrence_count_def eba)
  moreover have "cooccurrence_entry m a b = cooccurrence_entry m b a" by (simp add: eab eba)
  moreover have "(cooccurrence_entry m a b = None)
      = (String ` set (stored_list asg a) \<inter> String ` set (stored_list asg b) = {})"
    by (simp add: eab zero [symmetric])
  ultimately have "cooccurrence_value String asg = Inr m
   \<and> cooccurrence_count m a b = N \<and> cooccurrence_count m b a = N
   \<and> cooccurrence_entry m a b = cooccurrence_entry m b a
   \<and> (cooccurrence_entry m a b = None)
       = (String ` set (stored_list asg a) \<inter> String ` set (stored_list asg b) = {})"
    using v by simp
  then show ?thesis unfolding N_def by (rule exI)
qed

lemma cooccurrence_scenario:
  "\<exists>m. cooccurrence_value id
       [(''code-A'', [''7'', ''8'']), (''code-B'', [''8'', ''9'', ''7''])] = Inr m
     \<and> cooccurrence_count m ''code-A'' ''code-B'' = 2
     \<and> cooccurrence_count m ''code-B'' ''code-A'' = 2"
proof -
  define asg :: "string list Record"
    where "asg = [(''code-A'', [''7'', ''8'']), (''code-B'', [''8'', ''9'', ''7''])]"
  have h1: "distinct (map fst asg)" by (simp add: asg_def)
  have h2: "''code-A'' \<noteq> ''code-B''" by simp
  have h3: "\<forall>c \<in> fst ` set asg. \<not> inherited_name c"
    by (simp add: asg_def inherited_name_def Object_prototype_def)
  have h4: "\<forall>rows \<in> snd ` set asg. \<forall>r \<in> set rows. \<not> inherited_name (id r)"
    by (simp add: asg_def inherited_name_def Object_prototype_def)
  have "id ` set (stored_list asg ''code-A'') \<inter> id ` set (stored_list asg ''code-B'')
      = {''7'', ''8''}"
    by (auto simp: asg_def stored_list_def)
  then have c: "card (id ` set (stored_list asg ''code-A'')
      \<inter> id ` set (stored_list asg ''code-B'')) = 2"
    by simp
  from cooccurrence_counts_shared_rows [OF h1 h2 h3 h4]
  obtain m where v: "cooccurrence_value id asg = Inr m"
    and c1: "cooccurrence_count m ''code-A'' ''code-B''
       = card (id ` set (stored_list asg ''code-A'') \<inter> id ` set (stored_list asg ''code-B''))"
    and c2: "cooccurrence_count m ''code-B'' ''code-A''
       = card (id ` set (stored_list asg ''code-A'') \<inter> id ` set (stored_list asg ''code-B''))"
    by (elim exE conjE)
  have "cooccurrence_count m ''code-A'' ''code-B'' = 2" by (simp only: c1 c)
  moreover have "cooccurrence_count m ''code-B'' ''code-A'' = 2" by (simp only: c2 c)
  ultimately have "\<exists>m. cooccurrence_value id asg = Inr m
     \<and> cooccurrence_count m ''code-A'' ''code-B'' = 2
     \<and> cooccurrence_count m ''code-B'' ''code-A'' = 2"
    using v by blast
  then show ?thesis unfolding asg_def .
qed

text \<open>
  C1 holds of the code for every assignments table in which no code id and no string
  form of a row id names an inherited property: there the counts of \<open>a\<close>, \<open>b\<close> and of
  \<open>b\<close>, \<open>a\<close> are both the number of rows assigned to both codes, and the two entries
  are equal and are absent exactly when no row is shared
  (\<open>cooccurrence_counts_shared_rows\<close>). It fails for the others: when the codes "code-A"
  and "code-B" are both assigned to the row "constructor", they share one row, yet
  \<open>assignmentsByRow\<close> throws at \<open>result[key].includes\<close> and \<open>cooccurrence\<close> has no
  value.
\<close>

theorem cooccurrence_inherited_row_key:
  "card (id ` set (stored_list [(''code-A'', [''constructor'']), (''code-B'', [''constructor''])] ''code-A'')
         \<inter> id ` set (stored_list [(''code-A'', [''constructor'']), (''code-B'', [''constructor''])] ''code-B'')) = 1
   \<and> assignmentsByRow id [(''code-A'', [''constructor'']), (''code-B'', [''constructor''])]
       = Inl TypeError
   \<and> cooccurrence_value id [(''code-A'', [''constructor'']), (''code-B'', [''constructor''])]
       = Inl TypeError"
  by (simp add: cooccurrence_value_def and_then_def assignmentsByRow_def row_step_def
      obj_get_def Object_prototype_def stored_list_def)

end
